theory Spec2Isabelle
  imports Complex_Main
begin

section \<open>Python values used by the takeoff pipeline\<close>

subsection \<open>Floats\<close>

text \<open>
  A Python \<^verbatim>\<open>float\<close> is an IEEE 754 binary64 number. A finite one is modelled by the
  rational number it denotes; the negative zero, the two infinities and the not-a-number
  are constructors of their own. \<open>Fl 0\<close> is the positive zero.
\<close>

datatype pyfloat = Fl rat | NegZero | PosInf | NegInf | NaN

definition pow_int :: "rat \<Rightarrow> int \<Rightarrow> rat" where
  "pow_int b e = (if 0 \<le> e then b ^ nat e else 1 / b ^ nat (- e))"

text \<open>The number of digits of a positive integer in base \<open>b\<close>.\<close>

function digit_count :: "int \<Rightarrow> int \<Rightarrow> int" where
  "digit_count b x = (if 1 < b \<and> 0 < x then digit_count b (x div b) + 1 else 0)"
  by pat_completeness auto
termination
  by (relation "measure (\<lambda>(b, x). nat x)")
     (auto simp: pos_imp_zdiv_nonneg_iff intro!: int_div_less_self)

declare digit_count.simps [simp del]

text \<open>
  For a positive rational \<open>q\<close>, \<open>floor_log b q\<close> is the integer \<open>k\<close> with
  \<open>b ^ k \<le> q < b ^ (k + 1)\<close>.
\<close>

definition floor_log :: "int \<Rightarrow> rat \<Rightarrow> int" where
  "floor_log b q =
     (let (n, d) = quotient_of q;
          k = digit_count b n - digit_count b d
      in if pow_int (of_int b) k \<le> q then k else k - 1)"

definition round_half_even :: "rat \<Rightarrow> int" where
  "round_half_even r =
     (let f = \<lfloor>r\<rfloor>; d = r - of_int f
      in if d < 1 / 2 then f else if 1 / 2 < d then f + 1
         else if even f then f else f + 1)"

text \<open>
  The distance between neighbouring floats at the magnitude of \<open>q\<close>: 53 significant
  bits, and no exponent below that of the subnormal numbers.
\<close>

definition ulp_of :: "rat \<Rightarrow> rat" where
  "ulp_of q = pow_int 2 (max (floor_log 2 \<bar>q\<bar>) (- 1022) - 52)"

text \<open>
  Rounding of an exact result to binary64, to nearest with ties to even, to an infinity
  when the rounded value reaches \<open>2 ^ 1024\<close>, and to the zero of its sign when it is
  nearer to zero than to the least subnormal number.
\<close>

definition round_double :: "rat \<Rightarrow> pyfloat" where
  "round_double q =
     (if q = 0 then Fl 0
      else let v = of_int (round_half_even (q / ulp_of q)) * ulp_of q
           in if 1024 \<le> floor_log 2 \<bar>v\<bar> then (if 0 < q then PosInf else NegInf)
              else if v = 0 \<and> q < 0 then NegZero
              else Fl v)"

text \<open>A decimal literal of the source text, such as \<^verbatim>\<open>0.8\<close>, denotes the nearest float.\<close>

definition float_lit :: "rat \<Rightarrow> pyfloat" where
  "float_lit q = round_double q"

text \<open>
  The sign bit of a float, the number a finite float denotes, and the zero and the
  infinity of a given sign.
\<close>

fun negative :: "pyfloat \<Rightarrow> bool" where
  "negative (Fl a) = (a < 0)"
| "negative NegZero = True"
| "negative PosInf = False"
| "negative NegInf = True"
| "negative NaN = False"

fun finite_value :: "pyfloat \<Rightarrow> rat option" where
  "finite_value (Fl a) = Some a"
| "finite_value NegZero = Some 0"
| "finite_value x = None"

definition signed_zero :: "bool \<Rightarrow> pyfloat" where
  "signed_zero n = (if n then NegZero else Fl 0)"

definition signed_inf :: "bool \<Rightarrow> pyfloat" where
  "signed_inf n = (if n then NegInf else PosInf)"

text \<open>
  The comparisons \<^verbatim>\<open><\<close>, \<^verbatim>\<open><=\<close>, \<^verbatim>\<open>>\<close> and \<^verbatim>\<open>==\<close>: all false on a not-a-number, and
  blind to the sign of a zero.
\<close>

fun unsigned_zero :: "pyfloat \<Rightarrow> pyfloat" where
  "unsigned_zero NegZero = Fl 0"
| "unsigned_zero x = x"

fun lt_values :: "pyfloat \<Rightarrow> pyfloat \<Rightarrow> bool" where
  "lt_values NaN y = False"
| "lt_values x NaN = False"
| "lt_values (Fl a) (Fl b) = (a < b)"
| "lt_values PosInf y = False"
| "lt_values x NegInf = False"
| "lt_values NegInf y = True"
| "lt_values x PosInf = True"
| "lt_values x y = False"

definition py_lt :: "pyfloat \<Rightarrow> pyfloat \<Rightarrow> bool" where
  "py_lt x y = lt_values (unsigned_zero x) (unsigned_zero y)"

definition py_eq :: "pyfloat \<Rightarrow> pyfloat \<Rightarrow> bool" where
  "py_eq x y = (x \<noteq> NaN \<and> unsigned_zero x = unsigned_zero y)"

definition py_le :: "pyfloat \<Rightarrow> pyfloat \<Rightarrow> bool" where
  "py_le x y = (py_lt x y \<or> py_eq x y)"

definition py_gt :: "pyfloat \<Rightarrow> pyfloat \<Rightarrow> bool" where
  "py_gt x y = py_lt y x"

datatype error =
    ValueError string
  | ZeroDivisionError
  | OverflowError
  | FileExistsError
  | NotADirectoryError
  | IsADirectoryError
  | FileNotFoundError
  | LibraryError string

text \<open>
  The product \<^verbatim>\<open>x * y\<close> of two floats; it never raises. An exact zero has the sign
  of the product of the signs, and a zero times an infinity is not a number.
\<close>

definition py_mul :: "pyfloat \<Rightarrow> pyfloat \<Rightarrow> pyfloat" where
  "py_mul x y =
     (if x = NaN \<or> y = NaN then NaN
      else case (finite_value x, finite_value y) of
          (Some a, Some b) \<Rightarrow>
            if a * b = 0 then signed_zero (negative x \<noteq> negative y) else round_double (a * b)
        | (Some a, None) \<Rightarrow> if a = 0 then NaN else signed_inf (negative x \<noteq> negative y)
        | (None, Some b) \<Rightarrow> if b = 0 then NaN else signed_inf (negative x \<noteq> negative y)
        | (None, None) \<Rightarrow> signed_inf (negative x \<noteq> negative y))"

text \<open>
  The quotient \<^verbatim>\<open>x / y\<close>: a zero divisor of either sign raises, whatever the dividend
  is.
\<close>

definition py_truediv :: "pyfloat \<Rightarrow> pyfloat \<Rightarrow> error + pyfloat" where
  "py_truediv x y =
     (case finite_value y of
        Some b \<Rightarrow>
          if b = 0 then Inl ZeroDivisionError
          else if x = NaN then Inr NaN
          else (case finite_value x of
              Some a \<Rightarrow>
                if a = 0 then Inr (signed_zero (negative x \<noteq> negative y))
                else Inr (round_double (a / b))
            | None \<Rightarrow> Inr (signed_inf (negative x \<noteq> negative y)))
      | None \<Rightarrow>
          if x = NaN \<or> y = NaN then Inr NaN
          else (case finite_value x of
              Some a \<Rightarrow> Inr (signed_zero (negative x \<noteq> negative y))
            | None \<Rightarrow> Inr NaN))"

text \<open>
  The power \<^verbatim>\<open>x ** 2\<close>. CPython answers itself for a not-a-number, an infinity, a
  zero and a base of magnitude one; any other base goes, without its sign, to
  \<^verbatim>\<open>pow(x, 2.0)\<close> of the C library, and an infinite result raises \<^verbatim>\<open>OverflowError\<close>.
  The C library is not part of the repository and its \<^verbatim>\<open>pow\<close> need not return the
  float nearest to the exact square, so it is a parameter: \<open>pow2 a\<close> is what
  \<^verbatim>\<open>pow(a, 2.0)\<close> returns for the float \<open>a\<close>. A library that reports a domain error
  returns a not-a-number, for which CPython raises \<^verbatim>\<open>ValueError\<close>.
\<close>

definition py_pow2 :: "(rat \<Rightarrow> pyfloat) \<Rightarrow> pyfloat \<Rightarrow> error + pyfloat" where
  "py_pow2 pow2 x =
     (case x of
        NaN \<Rightarrow> Inr NaN
      | PosInf \<Rightarrow> Inr PosInf
      | NegInf \<Rightarrow> Inr PosInf
      | NegZero \<Rightarrow> Inr (Fl 0)
      | Fl a \<Rightarrow>
          if a = 0 then Inr (Fl 0)
          else if \<bar>a\<bar> = 1 then Inr (Fl 1)
          else (case pow2 \<bar>a\<bar> of
              PosInf \<Rightarrow> Inl OverflowError
            | NegInf \<Rightarrow> Inl OverflowError
            | NaN \<Rightarrow> Inl (ValueError ''math domain error'')
            | r \<Rightarrow> Inr r))"

text \<open>
  A C library whose \<^verbatim>\<open>pow(a, 2.0)\<close> is the float nearest to the exact square. It
  stands for the library in the evaluated examples, which need the square of
  \<^verbatim>\<open>0.1\<close> only: there CPython prints \<^verbatim>\<open>0.010000000000000002\<close>, the nearest float.
\<close>

definition nearest_square :: "rat \<Rightarrow> pyfloat" where
  "nearest_square a = round_double (a * a)"

section \<open>The pipeline of \<^verbatim>\<open>src/src/pipeline.py\<close>\<close>

subsection \<open>Data classes\<close>

text \<open>
  \<^verbatim>\<open>Calibration\<close> is a frozen data class with no \<^verbatim>\<open>__post_init__\<close>: the generated
  constructor stores its two arguments and checks nothing.
\<close>

record Calibration =
  pixel_distance :: pyfloat
  real_distance_feet :: pyfloat

definition Calibration_init :: "pyfloat \<Rightarrow> pyfloat \<Rightarrow> error + Calibration" where
  "Calibration_init pd rd = Inr \<lparr>pixel_distance = pd, real_distance_feet = rd\<rparr>"

text \<open>The property \<^verbatim>\<open>feet_per_pixel\<close>: the two checks run each time it is read.\<close>

definition feet_per_pixel :: "Calibration \<Rightarrow> error + pyfloat" where
  "feet_per_pixel c =
     (if py_le (pixel_distance c) (Fl 0) then
        Inl (ValueError ''pixel_distance must be > 0'')
      else if py_le (real_distance_feet c) (Fl 0) then
        Inl (ValueError ''real_distance_feet must be > 0'')
      else py_truediv (real_distance_feet c) (pixel_distance c))"

record CandidateMetrics =
  contour_index :: int
  area_sqft :: pyfloat
  perimeter_lf :: pyfloat
  vertex_count :: int
  sanity_score_of :: pyfloat
  flagged :: bool

record PipelineConfig =
  dpi :: int
  adaptive_block_size :: int
  adaptive_c :: int
  line_weight_threshold_px :: int
  close_kernel_px :: "int option"
  min_area_sqft :: pyfloat
  max_vertex_count :: int
  sanity_ratio_threshold :: pyfloat

text \<open>The defaults of the data class \<^verbatim>\<open>PipelineConfig\<close>.\<close>

definition default_config :: PipelineConfig where
  "default_config =
     \<lparr>dpi = 600, adaptive_block_size = 35, adaptive_c = 10,
      line_weight_threshold_px = 5, close_kernel_px = Some 3,
      min_area_sqft = float_lit 1, max_vertex_count = 1000,
      sanity_ratio_threshold = float_lit (8 / 10)\<rparr>"

text \<open>
  A polygon is an object of the geometry library, which is not part of the repository.
  The pipeline reads four of its attributes: \<^verbatim>\<open>is_empty\<close>, \<^verbatim>\<open>area\<close>, \<^verbatim>\<open>length\<close> and
  \<^verbatim>\<open>exterior.coords\<close>. The record holds what these four return.
\<close>

record Polygon =
  is_empty :: bool
  area :: pyfloat
  length_of :: pyfloat
  exterior_coords :: "(pyfloat \<times> pyfloat) list"

record PipelineResult =
  polygons :: "Polygon list"
  metrics :: "CandidateMetrics list"

subsection \<open>Geometry and the candidate filter\<close>

text \<open>
  The functions that square a float take the C library's \<open>pow2\<close> as their first
  argument.
\<close>

definition compute_geometry ::
  "(rat \<Rightarrow> pyfloat) \<Rightarrow> Polygon \<Rightarrow> Calibration \<Rightarrow> error + pyfloat \<times> pyfloat" where
  "compute_geometry pow2 polygon calibration =
     (case feet_per_pixel calibration of
        Inl e \<Rightarrow> Inl e
      | Inr fpp \<Rightarrow>
          (case py_pow2 pow2 fpp of
             Inl e \<Rightarrow> Inl e
           | Inr sq \<Rightarrow> Inr (py_mul (area polygon) sq, py_mul (length_of polygon) fpp)))"

definition sanity_score :: "Polygon \<Rightarrow> error + pyfloat" where
  "sanity_score polygon =
     (if py_eq (area polygon) (Fl 0) then Inr PosInf
      else py_truediv (length_of polygon) (area polygon))"

text \<open>
  The loop of \<^verbatim>\<open>filter_candidates\<close> over \<^verbatim>\<open>enumerate(polygons)\<close>: \<open>idx\<close> is the
  position of the head of the remaining list, \<open>ms\<close> and \<open>acc\<close> are the lists \<^verbatim>\<open>metrics\<close>
  and \<^verbatim>\<open>accepted\<close> built so far. An exception leaves the loop and the function.
\<close>

fun filter_loop ::
  "(rat \<Rightarrow> pyfloat) \<Rightarrow> nat \<Rightarrow> Polygon list \<Rightarrow> Calibration \<Rightarrow> PipelineConfig \<Rightarrow>
   CandidateMetrics list \<Rightarrow> Polygon list \<Rightarrow> error + PipelineResult" where
  "filter_loop pow2 idx [] calibration config ms acc = Inr \<lparr>polygons = acc, metrics = ms\<rparr>"
| "filter_loop pow2 idx (polygon # rest) calibration config ms acc =
     (if is_empty polygon then filter_loop pow2 (Suc idx) rest calibration config ms acc
      else case compute_geometry pow2 polygon calibration of
        Inl e \<Rightarrow> Inl e
      | Inr (a_sqft, p_lf) \<Rightarrow>
          (let vertices = int (length (exterior_coords polygon)) in
           case sanity_score polygon of
             Inl e \<Rightarrow> Inl e
           | Inr score \<Rightarrow>
               (let flag = py_gt score (sanity_ratio_threshold config) in
                if py_lt a_sqft (min_area_sqft config) then
                  filter_loop pow2 (Suc idx) rest calibration config ms acc
                else if max_vertex_count config < vertices then
                  filter_loop pow2 (Suc idx) rest calibration config ms acc
                else
                  filter_loop pow2 (Suc idx) rest calibration config
                    (ms @ [\<lparr>contour_index = int idx, area_sqft = a_sqft,
                            perimeter_lf = p_lf, vertex_count = vertices,
                            sanity_score_of = score, flagged = flag\<rparr>])
                    (acc @ [polygon]))))"

definition filter_candidates ::
  "(rat \<Rightarrow> pyfloat) \<Rightarrow> Polygon list \<Rightarrow> Calibration \<Rightarrow> PipelineConfig \<Rightarrow> error + PipelineResult" where
  "filter_candidates pow2 ps calibration config = filter_loop pow2 0 ps calibration config [] []"

subsection \<open>Text of numbers and truth values\<close>

text \<open>\<^verbatim>\<open>str\<close> of an \<^verbatim>\<open>int\<close> and of a \<^verbatim>\<open>bool\<close>.\<close>

definition digit_char :: "int \<Rightarrow> char" where
  "digit_char d = ''0123456789'' ! nat d"

function str_digits :: "int \<Rightarrow> string" where
  "str_digits n =
     (if n < 10 then [digit_char n] else str_digits (n div 10) @ [digit_char (n mod 10)])"
  by pat_completeness auto
termination
  by (relation "measure nat") auto

declare str_digits.simps [simp del]

definition str_int :: "int \<Rightarrow> string" where
  "str_int i = (if i < 0 then CHR ''-'' # str_digits (- i) else str_digits i)"

definition str_bool :: "bool \<Rightarrow> string" where
  "str_bool b = (if b then ''True'' else ''False'')"

text \<open>
  \<^verbatim>\<open>str\<close> of a \<^verbatim>\<open>float\<close> is its \<^verbatim>\<open>repr\<close>: the shortest decimal numeral that rounds
  back to the float, the nearest to it among those of that length (ties to an even last
  digit), written with an exponent when the decimal point would lie more than 16 places
  right of the first digit or more than 3 places left of it. The negative zero keeps its
  sign.
\<close>

definition shortest_at :: "nat \<Rightarrow> rat \<Rightarrow> rat option" where
  "shortest_at n q =
     (let s = pow_int 10 (floor_log 10 q - int n + 1);
          lo = \<lfloor>q / s\<rfloor>;
          a = of_int lo * s;
          b = of_int (lo + 1) * s;
          oka = (round_double a = Fl q);
          okb = (round_double b = Fl q)
      in if oka \<and> okb then
           (if q - a < b - q then Some a
            else if b - q < q - a then Some b
            else if even lo then Some a else Some b)
         else if oka then Some a
         else if okb then Some b
         else None)"

fun shortest_from :: "nat list \<Rightarrow> rat \<Rightarrow> rat" where
  "shortest_from [] q = q"
| "shortest_from (n # ns) q =
     (case shortest_at n q of Some c \<Rightarrow> c | None \<Rightarrow> shortest_from ns q)"

definition shortest_decimal :: "rat \<Rightarrow> rat" where
  "shortest_decimal q = shortest_from [1 ..< 18] q"

definition strip_zeros :: "string \<Rightarrow> string" where
  "strip_zeros ds = rev (dropWhile (\<lambda>c. c = CHR ''0'') (rev ds))"

definition repr_pos :: "rat \<Rightarrow> string" where
  "repr_pos q =
     (let c = shortest_decimal q;
          e = floor_log 10 c;
          ds = strip_zeros (str_digits \<lfloor>c / pow_int 10 (e - 16)\<rfloor>);
          decpt = e + 1;
          n = int (length ds)
      in if decpt \<le> - 4 \<or> 16 < decpt then
           take 1 ds @ (if 1 < n then ''.'' @ drop 1 ds else [])
             @ ''e'' @ (if decpt - 1 < 0 then ''-'' else ''+'')
             @ (if \<bar>decpt - 1\<bar> < 10 then ''0'' else []) @ str_digits \<bar>decpt - 1\<bar>
         else if decpt \<le> 0 then ''0.'' @ replicate (nat (- decpt)) CHR ''0'' @ ds
         else if n \<le> decpt then ds @ replicate (nat (decpt - n)) CHR ''0'' @ ''.0''
         else take (nat decpt) ds @ ''.'' @ drop (nat decpt) ds)"

fun str_float :: "pyfloat \<Rightarrow> string" where
  "str_float NaN = ''nan''"
| "str_float PosInf = ''inf''"
| "str_float NegInf = ''-inf''"
| "str_float NegZero = ''-0.0''"
| "str_float (Fl q) =
     (if q = 0 then ''0.0'' else if q < 0 then ''-'' @ repr_pos (- q) else repr_pos q)"

subsection \<open>The metrics export\<close>

text \<open>
  A row of \<^verbatim>\<open>csv.DictWriter\<close> in the default dialect: the fields in the order of
  \<^verbatim>\<open>fieldnames\<close>, separated by commas and ended by carriage return and line feed. A
  field is put in double quotes only if it holds a comma, a double quote or a line break.
\<close>

definition needs_quotes :: "string \<Rightarrow> bool" where
  "needs_quotes s = list_ex (\<lambda>c. c = CHR '','' \<or> c = CHR 0x22 \<or> c = CHR 0x0D \<or> c = CHR 0x0A) s"

definition csv_field :: "string \<Rightarrow> string" where
  "csv_field s =
     (if needs_quotes s then
        [CHR 0x22] @ concat (map (\<lambda>c. if c = CHR 0x22 then [c, c] else [c]) s) @ [CHR 0x22]
      else s)"

fun join_fields :: "string list \<Rightarrow> string" where
  "join_fields [] = []"
| "join_fields [f] = f"
| "join_fields (f # fs) = f @ '','' @ join_fields fs"

definition line_end :: string where
  "line_end = [CHR 0x0D, CHR 0x0A]"

definition csv_row :: "string list \<Rightarrow> string" where
  "csv_row cells = join_fields (map csv_field cells) @ line_end"

definition fieldnames :: "string list" where
  "fieldnames =
     [''contour_index'', ''area_sqft'', ''perimeter_lf'', ''vertex_count'',
      ''sanity_score'', ''flagged'']"

definition row_of :: "CandidateMetrics \<Rightarrow> string list" where
  "row_of item =
     [str_int (contour_index item), str_float (area_sqft item),
      str_float (perimeter_lf item), str_int (vertex_count item),
      str_float (sanity_score_of item), str_bool (flagged item)]"

definition csv_rows :: "CandidateMetrics list \<Rightarrow> string list" where
  "csv_rows ms = csv_row fieldnames # map (\<lambda>item. csv_row (row_of item)) ms"

text \<open>
  The file system, as far as the export touches it. A path is the list of its components
  below the working directory, which exists; \<^verbatim>\<open>output_path.parent\<close> is the path without
  its last component.
\<close>

type_synonym path = "string list"

datatype node = Dir | File string

type_synonym filesystem = "path \<Rightarrow> node option"

definition lookup :: "filesystem \<Rightarrow> path \<Rightarrow> node option" where
  "lookup fs p = (if p = [] then Some Dir else fs p)"

text \<open>
  \<^verbatim>\<open>Path.mkdir(parents=True, exist_ok=True)\<close>: an existing directory is left alone, a
  file in the way raises, and a missing parent is made first.
\<close>

function mkdir_parents :: "path \<Rightarrow> filesystem \<Rightarrow> error + filesystem" where
  "mkdir_parents p fs =
     (case lookup fs p of
        Some Dir \<Rightarrow> Inr fs
      | Some (File t) \<Rightarrow> Inl FileExistsError
      | None \<Rightarrow>
          (case lookup fs (butlast p) of
             Some Dir \<Rightarrow> Inr (fs(p \<mapsto> Dir))
           | Some (File t) \<Rightarrow> Inl NotADirectoryError
           | None \<Rightarrow>
               (case mkdir_parents (butlast p) fs of
                  Inl e \<Rightarrow> Inl e
                | Inr fs' \<Rightarrow> Inr (fs'(p \<mapsto> Dir)))))"
  by pat_completeness auto
termination
  by (relation "measure (\<lambda>(p, fs). length p)") (auto simp: lookup_def split: if_splits)

declare mkdir_parents.simps [simp del]

text \<open>\<^verbatim>\<open>open("w")\<close> followed by the writes and the close: the file holds the new text only.\<close>

definition open_write :: "path \<Rightarrow> string \<Rightarrow> filesystem \<Rightarrow> error + filesystem" where
  "open_write p t fs =
     (case lookup fs p of
        Some Dir \<Rightarrow> Inl IsADirectoryError
      | _ \<Rightarrow>
          (case lookup fs (butlast p) of
             Some Dir \<Rightarrow> Inr (fs(p \<mapsto> File t))
           | Some (File u) \<Rightarrow> Inl NotADirectoryError
           | None \<Rightarrow> Inl FileNotFoundError))"

definition export_to_csv ::
  "CandidateMetrics list \<Rightarrow> path \<Rightarrow> filesystem \<Rightarrow> error + filesystem" where
  "export_to_csv ms output_path fs =
     (case mkdir_parents (butlast output_path) fs of
        Inl e \<Rightarrow> Inl e
      | Inr fs' \<Rightarrow> open_write output_path (concat (csv_rows ms)) fs')"

subsection \<open>The raster stages and the whole pipeline\<close>

text \<open>
  Rendering, thresholding, morphology, contour tracing and the construction of a polygon
  are calls into libraries that are not part of the repository. They are parameters: a
  record of functions, each returning a value or raising. \<open>render_page\<close> stands for the
  library calls made by \<^verbatim>\<open>render_pdf_to_grayscale\<close>, \<open>make_polygon\<close> for the polygon
  constructor.
\<close>

datatype morph = MORPH_OPEN | MORPH_CLOSE

record ('img, 'ker) library =
  render_page :: "string \<Rightarrow> int \<Rightarrow> int \<Rightarrow> error + 'img"
  adaptiveThreshold :: "'img \<Rightarrow> int \<Rightarrow> int \<Rightarrow> error + 'img"
  getStructuringElement :: "int \<times> int \<Rightarrow> error + 'ker"
  morphologyEx :: "'img \<Rightarrow> morph \<Rightarrow> 'ker \<Rightarrow> error + 'img"
  findContours :: "'img \<Rightarrow> error + ((nat list \<times> (pyfloat \<times> pyfloat) list) list)"
  make_polygon :: "(pyfloat \<times> pyfloat) list \<Rightarrow> error + Polygon"

definition render_pdf_to_grayscale ::
  "('img, 'ker) library \<Rightarrow> string \<Rightarrow> int \<Rightarrow> int \<Rightarrow> error + 'img" where
  "render_pdf_to_grayscale lib pdf_path page_number d = render_page lib pdf_path page_number d"

definition adaptive_binarize ::
  "('img, 'ker) library \<Rightarrow> 'img \<Rightarrow> int \<Rightarrow> int \<Rightarrow> error + 'img" where
  "adaptive_binarize lib gray block_size c =
     (if block_size mod 2 = 0 then Inl (ValueError ''adaptive_block_size must be odd'')
      else adaptiveThreshold lib gray block_size c)"

text \<open>
  \<^verbatim>\<open>if close_kernel_px:\<close> is false for \<^verbatim>\<open>None\<close> and for \<^verbatim>\<open>0\<close>, true for every other
  integer.
\<close>

definition thickness_gate ::
  "('img, 'ker) library \<Rightarrow> 'img \<Rightarrow> int \<Rightarrow> int option \<Rightarrow> error + 'img" where
  "thickness_gate lib binary lw ck =
     (case getStructuringElement lib (lw, lw) of
        Inl e \<Rightarrow> Inl e
      | Inr ker \<Rightarrow>
          (case morphologyEx lib binary MORPH_OPEN ker of
             Inl e \<Rightarrow> Inl e
           | Inr opened \<Rightarrow>
               (case ck of
                  None \<Rightarrow> Inr opened
                | Some k \<Rightarrow>
                    if k \<noteq> 0 then
                      (case getStructuringElement lib (k, k) of
                         Inl e \<Rightarrow> Inl e
                       | Inr close_kernel \<Rightarrow> morphologyEx lib opened MORPH_CLOSE close_kernel)
                    else Inr opened)))"

definition find_closed_contours ::
  "('img, 'ker) library \<Rightarrow> 'img \<Rightarrow> error + ((nat list \<times> (pyfloat \<times> pyfloat) list) list)" where
  "find_closed_contours lib gated = findContours lib gated"

text \<open>
  A contour is an array; the model keeps its \<^verbatim>\<open>shape\<close> and the points
  \<^verbatim>\<open>contour[:, 0, :].astype(float)\<close>.
\<close>

definition contour_to_polygon ::
  "('img, 'ker) library \<Rightarrow> nat list \<times> (pyfloat \<times> pyfloat) list \<Rightarrow> error + Polygon" where
  "contour_to_polygon lib contour =
     (case contour of (shape, points) \<Rightarrow>
        if length shape \<noteq> 3 \<or> shape ! 1 \<noteq> 1 then Inl (ValueError ''Unexpected contour shape'')
        else make_polygon lib points)"

fun map_raise :: "('a \<Rightarrow> error + 'b) \<Rightarrow> 'a list \<Rightarrow> error + 'b list" where
  "map_raise f [] = Inr []"
| "map_raise f (x # xs) =
     (case f x of
        Inl e \<Rightarrow> Inl e
      | Inr y \<Rightarrow> (case map_raise f xs of Inl e \<Rightarrow> Inl e | Inr ys \<Rightarrow> Inr (y # ys)))"

definition run_pipeline ::
  "('img, 'ker) library \<Rightarrow> (rat \<Rightarrow> pyfloat) \<Rightarrow> string \<Rightarrow> int \<Rightarrow> Calibration \<Rightarrow> PipelineConfig \<Rightarrow>
   error + PipelineResult" where
  "run_pipeline lib pow2 pdf_path page_number calibration config =
     (case render_pdf_to_grayscale lib pdf_path page_number (dpi config) of
        Inl e \<Rightarrow> Inl e
      | Inr gray \<Rightarrow>
     (case adaptive_binarize lib gray (adaptive_block_size config) (adaptive_c config) of
        Inl e \<Rightarrow> Inl e
      | Inr binary \<Rightarrow>
     (case thickness_gate lib binary (line_weight_threshold_px config) (close_kernel_px config) of
        Inl e \<Rightarrow> Inl e
      | Inr gated \<Rightarrow>
     (case find_closed_contours lib gated of
        Inl e \<Rightarrow> Inl e
      | Inr contours \<Rightarrow>
     (case map_raise (contour_to_polygon lib) contours of
        Inl e \<Rightarrow> Inl e
      | Inr ps \<Rightarrow> filter_candidates pow2 ps calibration config)))))"

text \<open>
  A library in which every call on an image succeeds and returns a term that records the
  call: an image is the history of the calls that made it. It traces no contour, so no
  polygon is asked of it.
\<close>

datatype element = MORPH_RECT int int

datatype image =
    Page string int int
  | Thresholded image int int
  | Morphed image morph element

definition recording_library :: "(image, element) library" where
  "recording_library =
     \<lparr>render_page = (\<lambda>pdf_path page_number d. Inr (Page pdf_path page_number d)),
      adaptiveThreshold = (\<lambda>gray block_size c. Inr (Thresholded gray block_size c)),
      getStructuringElement = (\<lambda>(w, h). Inr (MORPH_RECT w h)),
      morphologyEx = (\<lambda>img op k. Inr (Morphed img op k)),
      findContours = (\<lambda>gated. Inr []),
      make_polygon = (\<lambda>points. Inl (LibraryError ''no polygon''))\<rparr>"

section \<open>The accepted regions of \<^verbatim>\<open>src/model.py\<close>\<close>

text \<open>
  The fields \<^verbatim>\<open>area_sqft\<close> and \<^verbatim>\<open>perimeter_lf\<close> of a region carry the prefix
  \<open>region\<close> here, the names being taken by the metrics above. The object of class
  \<^verbatim>\<open>AcceptedRegionsModel\<close> is the record of its two attributes, and a method returns
  the object as it is after the call.
\<close>

record AcceptedRegion =
  page :: int
  region_id :: int
  region_area_sqft :: pyfloat
  region_perimeter_lf :: pyfloat
  polygon_points :: "(pyfloat \<times> pyfloat) list"

record AcceptedRegionsModel =
  regions_attr :: "AcceptedRegion list"
  next_id :: int

definition model_init :: AcceptedRegionsModel where
  "model_init = \<lparr>regions_attr = [], next_id = 1\<rparr>"

definition add_region ::
  "AcceptedRegionsModel \<Rightarrow> int \<Rightarrow> pyfloat \<Rightarrow> pyfloat \<Rightarrow> (pyfloat \<times> pyfloat) list \<Rightarrow>
   AcceptedRegion \<times> AcceptedRegionsModel" where
  "add_region self pg a p pts =
     (let region = \<lparr>page = pg, region_id = next_id self, region_area_sqft = a,
                     region_perimeter_lf = p, polygon_points = pts\<rparr>
      in (region, \<lparr>regions_attr = regions_attr self @ [region], next_id = next_id self + 1\<rparr>))"

definition remove_region :: "AcceptedRegionsModel \<Rightarrow> int \<Rightarrow> AcceptedRegionsModel" where
  "remove_region self rid =
     self\<lparr>regions_attr := filter (\<lambda>region. region_id region \<noteq> rid) (regions_attr self)\<rparr>"

definition regions :: "AcceptedRegionsModel \<Rightarrow> AcceptedRegion list" where
  "regions self = regions_attr self"

text \<open>
  The life of a model: any sequence of calls of the two methods that change it, from the
  state the constructor leaves. \<open>run_calls\<close> returns the final state and the identifiers
  handed out by the calls of \<^verbatim>\<open>add_region\<close>, in the order of the calls.
\<close>

datatype call =
    Add int pyfloat pyfloat "(pyfloat \<times> pyfloat) list"
  | Remove int

fun run_calls :: "AcceptedRegionsModel \<Rightarrow> call list \<Rightarrow> AcceptedRegionsModel \<times> int list" where
  "run_calls self [] = (self, [])"
| "run_calls self (Add pg a p pts # cs) =
     (case add_region self pg a p pts of
        (region, self') \<Rightarrow>
          (case run_calls self' cs of (final, ids) \<Rightarrow> (final, region_id region # ids)))"
| "run_calls self (Remove rid # cs) = run_calls (remove_region self rid) cs"

section \<open>Specification of the candidate filter\<close>

text \<open>
  What the design says the filter returns, written without the loop: the polygons of the
  input, each with its position, that are not empty and pass the two checks, and for each
  of them its record of metrics. \<open>geometry_value\<close> and \<open>score_value\<close> read the result
  of a call that returned; the loop is compared with these functions below.
\<close>

definition geometry_value ::
  "(rat \<Rightarrow> pyfloat) \<Rightarrow> Calibration \<Rightarrow> Polygon \<Rightarrow> pyfloat \<times> pyfloat" where
  "geometry_value pow2 c p = (case compute_geometry pow2 p c of Inr g \<Rightarrow> g | Inl e \<Rightarrow> (NaN, NaN))"

definition score_value :: "Polygon \<Rightarrow> pyfloat" where
  "score_value p = (case sanity_score p of Inr v \<Rightarrow> v | Inl e \<Rightarrow> NaN)"

definition vertices_of :: "Polygon \<Rightarrow> int" where
  "vertices_of p = int (length (exterior_coords p))"

definition accepted_by ::
  "(rat \<Rightarrow> pyfloat) \<Rightarrow> Calibration \<Rightarrow> PipelineConfig \<Rightarrow> Polygon \<Rightarrow> bool" where
  "accepted_by pow2 c cfg p =
     (\<not> is_empty p \<and> \<not> py_lt (fst (geometry_value pow2 c p)) (min_area_sqft cfg)
      \<and> \<not> max_vertex_count cfg < vertices_of p)"

definition metric_for ::
  "(rat \<Rightarrow> pyfloat) \<Rightarrow> Calibration \<Rightarrow> PipelineConfig \<Rightarrow> nat \<times> Polygon \<Rightarrow>
   CandidateMetrics" where
  "metric_for pow2 c cfg ip =
     \<lparr>contour_index = int (fst ip),
      area_sqft = fst (geometry_value pow2 c (snd ip)),
      perimeter_lf = snd (geometry_value pow2 c (snd ip)),
      vertex_count = vertices_of (snd ip),
      sanity_score_of = score_value (snd ip),
      flagged = py_gt (score_value (snd ip)) (sanity_ratio_threshold cfg)\<rparr>"

definition selected ::
  "(rat \<Rightarrow> pyfloat) \<Rightarrow> Calibration \<Rightarrow> PipelineConfig \<Rightarrow> nat \<Rightarrow> Polygon list \<Rightarrow>
   (nat \<times> Polygon) list" where
  "selected pow2 c cfg i ps =
     filter (\<lambda>ip. accepted_by pow2 c cfg (snd ip)) (zip [i ..< i + length ps] ps)"

section \<open>The rectangle scenario\<close>

text \<open>
  The geometry library keeps the exterior of a polygon as a closed ring: the coordinates
  of the vertices in order, with the first repeated at the end unless the sequence given
  to the constructor ends in it already. So \<^verbatim>\<open>exterior.coords\<close> of a rectangle has
  five entries.
\<close>

definition closed_ring :: "(pyfloat \<times> pyfloat) list \<Rightarrow> (pyfloat \<times> pyfloat) list" where
  "closed_ring pts = (if pts = [] \<or> hd pts = last pts then pts else pts @ [hd pts])"

text \<open>
  The calibration of 100 pixels to 10 feet, and the rectangle of 100 by 50 pixels: the
  geometry library reports an area of 5000 and a length of 300 for it.
\<close>

definition scenario_calibration :: Calibration where
  "scenario_calibration = \<lparr>pixel_distance = Fl 100, real_distance_feet = Fl 10\<rparr>"

definition scenario_polygon :: Polygon where
  "scenario_polygon =
     \<lparr>is_empty = False, area = Fl 5000, length_of = Fl 300,
      exterior_coords =
        closed_ring [(Fl 0, Fl 0), (Fl 100, Fl 0), (Fl 100, Fl 50), (Fl 0, Fl 50)]\<rparr>"

text \<open>The record of metrics the scenario states, with the numbers as the design gives them.\<close>

definition stated_metrics :: CandidateMetrics where
  "stated_metrics =
     \<lparr>contour_index = 0, area_sqft = float_lit 50, perimeter_lf = float_lit 30,
      vertex_count = 4, sanity_score_of = float_lit (6 / 100), flagged = False\<rparr>"

text \<open>
  The record of metrics the filter builds for the rectangle: the area is the float that
  follows 50, printed \<^verbatim>\<open>50.00000000000001\<close>, and the ring has five coordinates.
\<close>

definition scenario_metrics :: CandidateMetrics where
  "scenario_metrics =
     \<lparr>contour_index = 0, area_sqft = Fl (50 + 1 / 2 ^ 47), perimeter_lf = float_lit 30,
      vertex_count = 5, sanity_score_of = float_lit (6 / 100), flagged = False\<rparr>"

text \<open>
  Further polygons for the examples: an empty one, one of zero area (three collinear
  points), an L-shaped one with six vertices, and a second rectangle of 200 by 100
  pixels.
\<close>

definition empty_polygon :: Polygon where
  "empty_polygon = \<lparr>is_empty = True, area = Fl 0, length_of = Fl 0, exterior_coords = []\<rparr>"

definition line_polygon :: Polygon where
  "line_polygon =
     \<lparr>is_empty = False, area = Fl 0, length_of = Fl 20,
      exterior_coords = closed_ring [(Fl 0, Fl 0), (Fl 10, Fl 0), (Fl 5, Fl 0)]\<rparr>"

definition ell_polygon :: Polygon where
  "ell_polygon =
     \<lparr>is_empty = False, area = Fl 7500, length_of = Fl 400,
      exterior_coords =
        closed_ring [(Fl 0, Fl 0), (Fl 100, Fl 0), (Fl 100, Fl 50), (Fl 50, Fl 50),
                     (Fl 50, Fl 100), (Fl 0, Fl 100)]\<rparr>"

definition wide_polygon :: Polygon where
  "wide_polygon =
     \<lparr>is_empty = False, area = Fl 20000, length_of = Fl 600,
      exterior_coords =
        closed_ring [(Fl 0, Fl 0), (Fl 200, Fl 0), (Fl 200, Fl 100), (Fl 0, Fl 100)]\<rparr>"

definition mixed_polygons :: "Polygon list" where
  "mixed_polygons =
     [empty_polygon, scenario_polygon, line_polygon, ell_polygon, wide_polygon]"

text \<open>A configuration that admits the five coordinates of a rectangle's ring and no more.\<close>

definition strict_config :: PipelineConfig where
  "strict_config = default_config\<lparr>max_vertex_count := 5\<rparr>"

definition mixed_result :: PipelineResult where
  "mixed_result =
     \<lparr>polygons = [scenario_polygon, wide_polygon],
      metrics =
        [\<lparr>contour_index = 1, area_sqft = Fl (50 + 1 / 2 ^ 47), perimeter_lf = Fl 30,
          vertex_count = 5, sanity_score_of = float_lit (6 / 100), flagged = False\<rparr>,
         \<lparr>contour_index = 4, area_sqft = Fl (200 + 1 / 2 ^ 45), perimeter_lf = Fl 60,
          vertex_count = 5, sanity_score_of = float_lit (3 / 100), flagged = False\<rparr>]\<rparr>"

definition zero_area_config :: PipelineConfig where
  "zero_area_config = default_config\<lparr>min_area_sqft := Fl 0\<rparr>"

definition line_result :: PipelineResult where
  "line_result =
     \<lparr>polygons = [line_polygon],
      metrics =
        [\<lparr>contour_index = 0, area_sqft = Fl 0, perimeter_lf = Fl 2, vertex_count = 4,
          sanity_score_of = PosInf, flagged = True\<rparr>]\<rparr>"

text \<open>
  The calibration of the least positive float to one foot: both distances are above
  zero, and their quotient is beyond the largest float.
\<close>

definition tiny_calibration :: Calibration where
  "tiny_calibration = \<lparr>pixel_distance = Fl (1 / 2 ^ 1074), real_distance_feet = Fl 1\<rparr>"

section \<open>Predicates of the statements\<close>

text \<open>
  A file system is well formed when everything in it lies in a directory, and a path is
  unobstructed when none of its prefixes is a file.
\<close>

definition well_formed :: "filesystem \<Rightarrow> bool" where
  "well_formed fs = (\<forall>p. fs p \<noteq> None \<longrightarrow> lookup fs (butlast p) = Some Dir)"

definition unobstructed :: "filesystem \<Rightarrow> path \<Rightarrow> bool" where
  "unobstructed fs p = (\<forall>k\<le>length p. \<forall>t. lookup fs (take k p) \<noteq> Some (File t))"

text \<open>
  A number lies in the normal range when it is not zero and not smaller in magnitude than
  the least normal float, so that rounding keeps 53 significant bits of it.
\<close>

definition normal_range :: "rat \<Rightarrow> bool" where
  "normal_range q = (q \<noteq> 0 \<and> - 1022 \<le> floor_log 2 \<bar>q\<bar>)"

text \<open>The lines of a text whose lines end in carriage return and line feed.\<close>

fun split_lines :: "string \<Rightarrow> string \<Rightarrow> string list" where
  "split_lines cur [] = (if cur = [] then [] else [cur])"
| "split_lines cur [c] = [cur @ [c]]"
| "split_lines cur (c # d # cs) =
     (if c = CHR 0x0D \<and> d = CHR 0x0A then cur # split_lines [] cs
      else split_lines (cur @ [c]) (d # cs))"

definition file_lines :: "filesystem \<Rightarrow> path \<Rightarrow> string list option" where
  "file_lines fs p = (case lookup fs p of Some (File t) \<Rightarrow> Some (split_lines [] t) | _ \<Rightarrow> None)"

text \<open>
  The invariant of the accepted regions: the stored identifiers increase along the list
  and lie below the next identifier.
\<close>

definition stored_below :: "AcceptedRegionsModel \<Rightarrow> bool" where
  "stored_below m =
     (sorted_wrt (<) (map region_id (regions_attr m))
      \<and> list_all (\<lambda>r. region_id r < next_id m) (regions_attr m))"

text \<open>A life of a model: three regions accepted, the second rejected again, a fourth accepted.\<close>

definition example_calls :: "call list" where
  "example_calls =
     [Add 1 (Fl 50) (Fl 30) [], Add 1 (Fl 20) (Fl 18) [], Add 2 (Fl 9) (Fl 12) [],
      Remove 2, Add 2 (Fl 4) (Fl 8) []]"



section \<open>Facts about the model\<close>

subsection \<open>Rounding\<close>

lemma pow_int_powi: "pow_int b e = b powi e"
  by (simp add: pow_int_def power_int_def inverse_eq_divide power_divide)

lemma digit_count_bounds:
  "1 < b \<Longrightarrow> 0 < x \<Longrightarrow>
   0 < digit_count b x \<and> b ^ nat (digit_count b x - 1) \<le> x \<and> x < b ^ nat (digit_count b x)"
proof (induction b x rule: digit_count.induct)
  case (1 b x)
  show ?case
  proof (cases "x < b")
    case True
    with "1.prems" have "x div b = 0" by simp
    then have "digit_count b x = 1"
      using "1.prems" by (subst digit_count.simps, subst digit_count.simps) simp
    with True "1.prems" show ?thesis by simp
  next
    case False
    with "1.prems" have pos: "0 < x div b"
      by (simp add: pos_imp_zdiv_pos_iff)
    from "1.prems" have c: "1 < b \<and> 0 < x" by simp
    from "1.IH"[OF c "1.prems"(1) pos]
    have ih: "0 < digit_count b (x div b)"
      "b ^ nat (digit_count b (x div b) - 1) \<le> x div b"
      "x div b < b ^ nat (digit_count b (x div b))" by auto
    let ?d = "digit_count b (x div b)"
    have dc: "digit_count b x = ?d + 1"
      using "1.prems" by (subst digit_count.simps) simp
    have nat1: "nat (?d + 1 - 1) = Suc (nat (?d - 1))" using ih(1) by simp
    have nat2: "nat (?d + 1) = Suc (nat ?d)" using ih(1) by simp
    have bpos: "0 < b" using "1.prems" by simp
    have m0: "0 \<le> x mod b" and mb: "x mod b < b" using bpos by simp_all
    have le1: "b * (x div b) \<le> x" using m0 mult_div_mod_eq[of b x] by linarith
    have lt1: "x < b * (x div b) + b" using mb mult_div_mod_eq[of b x] by linarith
    have "b * b ^ nat (?d - 1) \<le> b * (x div b)"
      using ih(2) bpos by simp
    with le1 have lo: "b ^ nat (digit_count b x - 1) \<le> x"
      unfolding dc nat1 by simp
    have "x div b + 1 \<le> b ^ nat ?d" using ih(3) by simp
    then have "b * (x div b + 1) \<le> b * b ^ nat ?d" using bpos by simp
    moreover have "x < b * (x div b + 1)"
      using lt1 by (simp add: distrib_left)
    ultimately have hi: "x < b ^ nat (digit_count b x)"
      unfolding dc nat2 by simp
    from lo hi dc ih(1) show ?thesis by simp
  qed
qed

lemma pow_int_pos: "0 < b \<Longrightarrow> 0 < pow_int b e"
  by (simp add: pow_int_powi)

lemma pow_int_add: "b \<noteq> 0 \<Longrightarrow> pow_int b (i + j) = pow_int b i * pow_int b j"
  by (simp add: pow_int_powi power_int_add)

lemma pow_int_nat: "pow_int b (int n) = b ^ n"
  by (simp add: pow_int_def)

lemma pow_int_diff_nat:
  "b \<noteq> 0 \<Longrightarrow> pow_int b (int m - int n) = b ^ m / b ^ n"
proof -
  assume b: "b \<noteq> 0"
  have "pow_int b (int m - int n) * b ^ n = pow_int b (int m - int n) * pow_int b (int n)"
    by (simp add: pow_int_nat)
  also have "\<dots> = pow_int b (int m)"
    using b pow_int_add[of b "int m - int n" "int n"] by simp
  also have "\<dots> = b ^ m" by (simp add: pow_int_nat)
  finally show ?thesis using b by (simp add: field_simps)
qed

lemma floor_log_bounds:
  assumes b: "1 < b" and q: "0 < q"
  shows "pow_int (of_int b) (floor_log b q) \<le> q \<and> q < pow_int (of_int b) (floor_log b q + 1)"
proof -
  obtain n d where nd: "quotient_of q = (n, d)" by (cases "quotient_of q")
  have dpos: "0 < d" using nd by (rule quotient_of_denom_pos)
  have qe: "q = of_int n / of_int d" using nd by (rule quotient_of_div)
  with q dpos have npos: "0 < n" by (simp add: zero_less_divide_iff)
  let ?B = "of_int b :: rat"
  have B: "1 < ?B" "?B \<noteq> 0" "0 < ?B" using b by simp_all
  from digit_count_bounds[OF b npos] obtain kn :: nat where
    kn: "digit_count b n = int kn + 1" "b ^ kn \<le> n" "n < b ^ Suc kn"
    by (metis Suc_nat_eq_nat_zadd1 add.commute diff_add_cancel nat_0_le nat_int
        zle_diff1_eq zless_imp_add1_zle order_less_imp_le add_diff_cancel_right')
  from digit_count_bounds[OF b dpos] obtain kd :: nat where
    kd: "digit_count b d = int kd + 1" "b ^ kd \<le> d" "d < b ^ Suc kd"
    by (metis Suc_nat_eq_nat_zadd1 add.commute diff_add_cancel nat_0_le nat_int
        zle_diff1_eq zless_imp_add1_zle order_less_imp_le add_diff_cancel_right')
  let ?k = "int kn - int kd"
  have k: "digit_count b n - digit_count b d = ?k" using kn(1) kd(1) by simp
  have nr: "?B ^ kn \<le> of_int n" "of_int n < ?B ^ Suc kn"
    using kn(2,3) by (metis of_int_le_iff of_int_power, metis of_int_less_iff of_int_power)
  have dr: "?B ^ kd \<le> of_int d" "of_int d < ?B ^ Suc kd"
    using kd(2,3) by (metis of_int_le_iff of_int_power, metis of_int_less_iff of_int_power)
  have dpos': "(0::rat) < of_int d" using dpos by simp
  have npos': "(0::rat) < of_int n" using npos by simp
  have upper: "q < pow_int ?B (?k + 1)"
  proof -
    have "q * ?B ^ kd \<le> q * of_int d" using dr(1) q by simp
    also have "\<dots> = of_int n" using qe dpos' by simp
    also have "\<dots> < ?B ^ Suc kn" by (rule nr(2))
    finally have "q < ?B ^ Suc kn / ?B ^ kd" using B by (simp add: field_simps)
    also have "\<dots> = pow_int ?B (int (Suc kn) - int kd)"
      by (rule pow_int_diff_nat[OF B(2), symmetric])
    finally show ?thesis by (simp add: algebra_simps)
  qed
  have lower: "pow_int ?B (?k - 1) < q"
  proof -
    have "?B ^ kn \<le> of_int n" by (rule nr(1))
    also have "\<dots> = q * of_int d" using qe dpos' by simp
    also have "\<dots> < q * ?B ^ Suc kd" using dr(2) q by simp
    finally have "?B ^ kn / ?B ^ Suc kd < q" using B by (simp add: field_simps)
    moreover have "?B ^ kn / ?B ^ Suc kd = pow_int ?B (int kn - int (Suc kd))"
      by (rule pow_int_diff_nat[OF B(2), symmetric])
    ultimately show ?thesis by (simp add: algebra_simps)
  qed
  have fl: "floor_log b q = (if pow_int ?B ?k \<le> q then ?k else ?k - 1)"
    by (simp add: floor_log_def nd k)
  show ?thesis
  proof (cases "pow_int ?B ?k \<le> q")
    case True
    with fl upper show ?thesis by simp
  next
    case False
    with fl lower show ?thesis by simp
  qed
qed

lemma round_half_even_near: "\<bar>of_int (round_half_even r) - r\<bar> \<le> 1 / 2"
proof -
  define d where "d = r - of_int \<lfloor>r\<rfloor>"
  have d: "0 \<le> d" "d < 1" unfolding d_def by linarith+
  have r: "r = of_int \<lfloor>r\<rfloor> + d" unfolding d_def by simp
  have rhe: "round_half_even r =
      (if d < 1 / 2 then \<lfloor>r\<rfloor> else if 1 / 2 < d then \<lfloor>r\<rfloor> + 1
       else if even \<lfloor>r\<rfloor> then \<lfloor>r\<rfloor> else \<lfloor>r\<rfloor> + 1)"
    by (simp add: round_half_even_def Let_def d_def)
  consider "round_half_even r = \<lfloor>r\<rfloor>" "d \<le> 1 / 2"
    | "round_half_even r = \<lfloor>r\<rfloor> + 1" "1 / 2 \<le> d"
    unfolding rhe by (cases "d < 1 / 2"; cases "1 / 2 < d"; cases "even \<lfloor>r\<rfloor>") auto
  then show ?thesis
  proof cases
    case 1
    have "of_int (round_half_even r) - r = - d" unfolding 1(1) d_def by simp
    with d 1(2) show ?thesis by simp
  next
    case 2
    have "of_int (round_half_even r) - r = 1 - d" unfolding 2(1) d_def by simp
    with d 2(2) show ?thesis by simp
  qed
qed

lemma round_double_near:
  assumes "round_double q = Fl v"
  shows "\<bar>v - q\<bar> \<le> ulp_of q / 2"
proof (cases "q = 0")
  case True
  with assms show ?thesis by (simp add: round_double_def ulp_of_def pow_int_pos less_imp_le)
next
  case False
  let ?u = "ulp_of q"
  have upos: "0 < ?u" by (simp add: ulp_of_def pow_int_pos)
  from assms False have v: "v = of_int (round_half_even (q / ?u)) * ?u"
    by (simp add: round_double_def Let_def split: if_splits)
  have "v - q = (of_int (round_half_even (q / ?u)) - q / ?u) * ?u"
    using upos by (simp add: v left_diff_distrib)
  then have "\<bar>v - q\<bar> = \<bar>of_int (round_half_even (q / ?u)) - q / ?u\<bar> * ?u"
    using upos by (simp add: abs_mult)
  also have "\<dots> \<le> 1 / 2 * ?u"
    using round_half_even_near[of "q / ?u"] upos by (intro mult_right_mono) simp_all
  finally show ?thesis by simp
qed

lemma round_double_relative:
  assumes "round_double q = Fl v" and "normal_range q"
  shows "\<bar>v - q\<bar> \<le> \<bar>q\<bar> / 2 ^ 53"
proof -
  let ?e = "floor_log 2 \<bar>q\<bar>"
  from assms(2) have q0: "0 < \<bar>q\<bar>" and e: "- 1022 \<le> ?e" by (auto simp: normal_range_def)
  have u: "ulp_of q = pow_int 2 (?e - 52)" using e by (simp add: ulp_of_def max_def)
  have "pow_int 2 ?e \<le> \<bar>q\<bar>"
    using floor_log_bounds[of 2 "\<bar>q\<bar>"] q0 by simp
  moreover have "pow_int 2 (?e - 52) = pow_int 2 ?e * pow_int 2 (- 52)"
    using pow_int_add[of 2 ?e "- 52"] by simp
  moreover have "pow_int (2::rat) (- 52) = 1 / 2 ^ 52" by (simp add: pow_int_def)
  ultimately have "ulp_of q / 2 \<le> \<bar>q\<bar> / 2 ^ 53" using u by simp
  with round_double_near[OF assms(1)] show ?thesis by linarith
qed

lemma pow_int_mono: "i \<le> j \<Longrightarrow> pow_int 2 i \<le> pow_int 2 j"
  by (simp add: pow_int_powi power_int_increasing)

lemma floor_log_unique:
  assumes lo: "pow_int 2 k \<le> q" and hi: "q < pow_int 2 (k + 1)"
  shows "floor_log 2 q = k"
proof -
  have q: "0 < q" using pow_int_pos[of 2 k] lo by simp
  let ?e = "floor_log 2 q"
  from floor_log_bounds[of 2 q] q
  have b: "pow_int 2 ?e \<le> q" "q < pow_int 2 (?e + 1)" by simp_all
  have "\<not> ?e < k"
  proof
    assume "?e < k"
    then have "pow_int 2 (?e + 1) \<le> pow_int 2 k" by (intro pow_int_mono) simp
    with lo b(2) show False by simp
  qed
  moreover have "\<not> k < ?e"
  proof
    assume "k < ?e"
    then have "pow_int 2 (k + 1) \<le> pow_int 2 ?e" by (intro pow_int_mono) simp
    with hi b(1) show False by simp
  qed
  ultimately show ?thesis by simp
qed

lemma floor_log_power: "floor_log 2 (pow_int 2 k) = k"
proof (rule floor_log_unique)
  show "pow_int 2 k \<le> pow_int 2 k" by simp
  have "pow_int 2 (k + 1) = pow_int 2 k * 2"
    using pow_int_add[of 2 k 1] by (simp add: pow_int_def)
  then show "pow_int 2 k < pow_int 2 (k + 1)" using pow_int_pos[of 2 k] by simp
qed

lemma round_half_even_of_int: "round_half_even (of_int n) = n"
  by (simp add: round_half_even_def)

lemma round_double_power_overflow:
  assumes "1024 \<le> k"
  shows "round_double (pow_int 2 k) = PosInf"
proof -
  let ?q = "pow_int 2 k"
  have q: "0 < ?q" by (simp add: pow_int_pos)
  then have aq: "\<bar>?q\<bar> = ?q" by simp
  have u: "ulp_of ?q = pow_int 2 (k - 52)"
    using assms by (simp add: ulp_of_def aq floor_log_power max_def)
  define N :: int where "N = 2 ^ 52"
  define w where "w = pow_int 2 (k - 52)"
  have p52: "pow_int 2 52 = of_int N" by (simp add: pow_int_def N_def)
  have split: "?q = of_int N * w"
    using pow_int_add[of 2 52 "k - 52"] by (simp add: p52 w_def)
  have wpos: "0 < w" by (simp add: pow_int_pos w_def)
  have uw: "ulp_of ?q = w" using u by (simp add: w_def)
  have "?q / w = of_int N * w / w" by (simp only: split)
  also have "\<dots> = of_int N" using wpos by simp
  finally have r: "round_half_even (?q / w) = N"
    by (simp only: round_half_even_of_int)
  have "of_int (round_half_even (?q / ulp_of ?q)) * ulp_of ?q = of_int N * w"
    by (simp only: uw r)
  then have v: "of_int (round_half_even (?q / ulp_of ?q)) * ulp_of ?q = ?q"
    by (simp only: split)
  have "round_double ?q =
      (let v = of_int (round_half_even (?q / ulp_of ?q)) * ulp_of ?q
       in if 1024 \<le> floor_log 2 \<bar>v\<bar> then (if 0 < ?q then PosInf else NegInf)
          else if v = 0 \<and> ?q < 0 then NegZero else Fl v)"
    using q by (simp only: round_double_def) simp
  also have "\<dots> = PosInf"
    unfolding v Let_def aq floor_log_power using assms q by simp
  finally show ?thesis .
qed

lemma least_float_reciprocal: "round_double (1 / (1 / 2 ^ 1074)) = PosInf"
proof -
  have "(1::rat) / (1 / 2 ^ 1074) = pow_int 2 1074" by (simp add: pow_int_def)
  then show ?thesis by (simp only: round_double_power_overflow)
qed

subsection \<open>The candidate filter\<close>

lemma py_truediv_total: "\<not> py_eq y (Fl 0) \<Longrightarrow> \<exists>v. py_truediv x y = Inr v"
  by (cases y) (auto simp: py_truediv_def py_eq_def split: option.splits)

lemma sanity_score_total: "sanity_score p = Inr (score_value p)"
proof (cases "py_eq (area p) (Fl 0)")
  case True
  then show ?thesis by (simp add: sanity_score_def score_value_def)
next
  case False
  then obtain v where "py_truediv (length_of p) (area p) = Inr v"
    using py_truediv_total by blast
  with False show ?thesis by (simp add: sanity_score_def score_value_def)
qed

lemma compute_geometry_value:
  "compute_geometry pow2 p c = Inr g \<Longrightarrow> geometry_value pow2 c p = g"
  by (simp add: geometry_value_def)

lemma compute_geometry_scale:
  "feet_per_pixel c = Inr f \<Longrightarrow> py_pow2 pow2 f = Inr sq \<Longrightarrow>
   compute_geometry pow2 p c = Inr (py_mul (area p) sq, py_mul (length_of p) f)"
  by (simp add: compute_geometry_def)

lemma compute_geometry_error_any:
  "compute_geometry pow2 p c = Inl e \<Longrightarrow> compute_geometry pow2 p' c = Inl e"
  by (auto simp: compute_geometry_def split: sum.splits)

lemma selected_Nil: "selected pow2 c cfg i [] = []"
  by (simp add: selected_def)

lemma selected_Cons:
  "selected pow2 c cfg i (p # ps) =
     (if accepted_by pow2 c cfg p then (i, p) # selected pow2 c cfg (Suc i) ps
      else selected pow2 c cfg (Suc i) ps)"
proof -
  have "[i ..< i + length (p # ps)] = i # [Suc i ..< Suc i + length ps]"
    by (simp add: upt_rec)
  then show ?thesis by (simp add: selected_def)
qed

lemma filter_loop_step:
  assumes "is_empty p \<or> (\<exists>g. compute_geometry pow2 p c = Inr g)"
  shows "filter_loop pow2 i (p # ps) c cfg ms acc =
     (if accepted_by pow2 c cfg p
      then filter_loop pow2 (Suc i) ps c cfg (ms @ [metric_for pow2 c cfg (i, p)]) (acc @ [p])
      else filter_loop pow2 (Suc i) ps c cfg ms acc)"
proof (cases "is_empty p")
  case True
  then show ?thesis by (simp add: accepted_by_def)
next
  case False
  with assms obtain a l where g: "compute_geometry pow2 p c = Inr (a, l)" by auto
  have gv: "geometry_value pow2 c p = (a, l)" using g by (rule compute_geometry_value)
  have sc: "sanity_score p = Inr (score_value p)" by (rule sanity_score_total)
  show ?thesis
    using False g
    by (simp add: sc gv accepted_by_def metric_for_def vertices_of_def Let_def)
qed

lemma filter_loop_spec:
  "filter_loop pow2 i ps c cfg ms acc = Inr r \<Longrightarrow>
   r = \<lparr>polygons = acc @ map snd (selected pow2 c cfg i ps),
        metrics = ms @ map (metric_for pow2 c cfg) (selected pow2 c cfg i ps)\<rparr>"
proof (induction ps arbitrary: i ms acc)
  case Nil
  then show ?case by (simp add: selected_Nil)
next
  case (Cons p ps)
  have ok: "is_empty p \<or> (\<exists>g. compute_geometry pow2 p c = Inr g)"
    using Cons.prems by (cases "is_empty p") (auto split: sum.splits)
  show ?case
  proof (cases "accepted_by pow2 c cfg p")
    case True
    then have "filter_loop pow2 (Suc i) ps c cfg (ms @ [metric_for pow2 c cfg (i, p)]) (acc @ [p]) = Inr r"
      using Cons.prems filter_loop_step[OF ok] by simp
    from Cons.IH[OF this] True show ?thesis by (simp add: selected_Cons)
  next
    case False
    then have "filter_loop pow2 (Suc i) ps c cfg ms acc = Inr r"
      using Cons.prems filter_loop_step[OF ok] by simp
    from Cons.IH[OF this] False show ?thesis by (simp add: selected_Cons)
  qed
qed

lemma filter_loop_returns:
  "(\<forall>p\<in>set ps. \<not> is_empty p \<longrightarrow> (\<exists>g. compute_geometry pow2 p c = Inr g)) \<Longrightarrow>
   \<exists>r. filter_loop pow2 i ps c cfg ms acc = Inr r"
proof (induction ps arbitrary: i ms acc)
  case Nil
  then show ?case by simp
next
  case (Cons p ps)
  show ?case
  proof (cases "is_empty p")
    case True
    with Cons show ?thesis by simp
  next
    case False
    with Cons.prems obtain a l where g: "compute_geometry pow2 p c = Inr (a, l)"
      by fastforce
    have sc: "sanity_score p = Inr (score_value p)" by (rule sanity_score_total)
    from Cons.prems have rest: "\<forall>p\<in>set ps. \<not> is_empty p \<longrightarrow> (\<exists>g. compute_geometry pow2 p c = Inr g)"
      by simp
    show ?thesis
      using False g sc Cons.IH[OF rest]
      by (simp add: Let_def)
  qed
qed

lemma filter_loop_raises:
  "p \<in> set ps \<Longrightarrow> \<not> is_empty p \<Longrightarrow> compute_geometry pow2 p c = Inl e \<Longrightarrow>
   filter_loop pow2 i ps c cfg ms acc = Inl e"
proof (induction ps arbitrary: i ms acc)
  case Nil
  then show ?case by simp
next
  case (Cons q qs)
  have q: "compute_geometry pow2 q c = Inl e"
    using Cons.prems(3) by (rule compute_geometry_error_any)
  show ?case
  proof (cases "is_empty q")
    case True
    with Cons show ?thesis by auto
  next
    case False
    with q show ?thesis by simp
  qed
qed

lemma selected_sound:
  "(j, p) \<in> set (selected pow2 c cfg i ps) \<Longrightarrow>
   i \<le> j \<and> j < i + length ps \<and> p = ps ! (j - i) \<and> accepted_by pow2 c cfg p"
  by (auto simp: selected_def set_zip)

lemma selected_complete:
  "k < length ps \<Longrightarrow> accepted_by pow2 c cfg (ps ! k) \<Longrightarrow> (i + k, ps ! k) \<in> set (selected pow2 c cfg i ps)"
  by (auto simp: selected_def set_zip intro!: exI[of _ k])

lemma selected_sorted: "sorted_wrt (<) (map fst (selected pow2 c cfg i ps))"
proof -
  have "map fst (zip [i ..< i + length ps] ps) = [i ..< i + length ps]"
    by (simp add: map_fst_zip)
  then have "sorted_wrt (<) (map fst (zip [i ..< i + length ps] ps))"
    by simp
  then have "sorted_wrt (\<lambda>x y. fst x < fst y) (zip [i ..< i + length ps] ps)"
    by (simp only: sorted_wrt_map)
  then have "sorted_wrt (\<lambda>x y. fst x < fst y) (selected pow2 c cfg i ps)"
    unfolding selected_def by (rule sorted_wrt_filter)
  then show ?thesis by (simp only: sorted_wrt_map)
qed

lemma filter_candidates_spec:
  "filter_candidates pow2 ps c cfg = Inr r \<Longrightarrow>
   r = \<lparr>polygons = map snd (selected pow2 c cfg 0 ps),
        metrics = map (metric_for pow2 c cfg) (selected pow2 c cfg 0 ps)\<rparr>"
  unfolding filter_candidates_def by (drule filter_loop_spec) simp

lemma run_geometry:
  assumes "filter_candidates pow2 ps c cfg = Inr r" and "p \<in> set ps" and "\<not> is_empty p"
  shows "compute_geometry pow2 p c = Inr (geometry_value pow2 c p)"
proof (cases "compute_geometry pow2 p c")
  case (Inl e)
  from filter_loop_raises[OF assms(2,3) Inl] assms(1) show ?thesis
    by (simp add: filter_candidates_def)
next
  case (Inr g)
  then show ?thesis by (simp add: geometry_value_def)
qed

lemma selected_nth:
  assumes "k < length (selected pow2 c cfg 0 ps)"
  shows "fst (selected pow2 c cfg 0 ps ! k) < length ps
       \<and> snd (selected pow2 c cfg 0 ps ! k) = ps ! fst (selected pow2 c cfg 0 ps ! k)
       \<and> accepted_by pow2 c cfg (snd (selected pow2 c cfg 0 ps ! k))"
proof -
  have "(fst (selected pow2 c cfg 0 ps ! k), snd (selected pow2 c cfg 0 ps ! k)) \<in> set (selected pow2 c cfg 0 ps)"
    using assms by simp
  from selected_sound[OF this] show ?thesis by auto
qed

lemma selected_index_iff:
  "j < length ps \<Longrightarrow>
   (j \<in> fst ` set (selected pow2 c cfg 0 ps)) = accepted_by pow2 c cfg (ps ! j)"
proof
  assume "j \<in> fst ` set (selected pow2 c cfg 0 ps)"
  then obtain p where "(j, p) \<in> set (selected pow2 c cfg 0 ps)" by force
  from selected_sound[OF this] show "accepted_by pow2 c cfg (ps ! j)" by auto
next
  assume "j < length ps" and "accepted_by pow2 c cfg (ps ! j)"
  from selected_complete[OF this, of 0] have "(j, ps ! j) \<in> set (selected pow2 c cfg 0 ps)"
    by simp
  then show "j \<in> fst ` set (selected pow2 c cfg 0 ps)"
    by (metis fst_conv image_eqI)
qed

lemma metrics_index_iff:
  assumes "filter_candidates pow2 ps c cfg = Inr r" and "j < length ps"
  shows "(int j \<in> contour_index ` set (metrics r)) = accepted_by pow2 c cfg (ps ! j)"
proof -
  have "contour_index ` set (metrics r) = int ` fst ` set (selected pow2 c cfg 0 ps)"
    by (subst filter_candidates_spec[OF assms(1)]) (simp add: image_image metric_for_def)
  moreover have "(int j \<in> int ` fst ` set (selected pow2 c cfg 0 ps)) = (j \<in> fst ` set (selected pow2 c cfg 0 ps))"
    by (simp add: inj_image_mem_iff inj_of_nat)
  ultimately show ?thesis using selected_index_iff[OF assms(2)] by simp
qed

lemma filter_candidates_returns:
  assumes "feet_per_pixel c = Inr f" and "py_pow2 pow2 f = Inr sq"
  shows "\<exists>r. filter_candidates pow2 ps c cfg = Inr r"
  unfolding filter_candidates_def
  by (rule filter_loop_returns) (simp add: compute_geometry_scale[OF assms])

lemma accepted_by_threshold:
  "accepted_by pow2 c (cfg\<lparr>sanity_ratio_threshold := t\<rparr>) p = accepted_by pow2 c cfg p"
  by (simp add: accepted_by_def)

lemma selected_threshold:
  "selected pow2 c (cfg\<lparr>sanity_ratio_threshold := t\<rparr>) i ps = selected pow2 c cfg i ps"
  by (simp add: selected_def accepted_by_threshold)

lemma returns_any_config:
  assumes "filter_candidates pow2 ps c cfg = Inr r"
  shows "\<exists>r'. filter_candidates pow2 ps c cfg' = Inr r'"
  unfolding filter_candidates_def
proof (rule filter_loop_returns, intro ballI impI)
  fix p assume "p \<in> set ps" and "\<not> is_empty p"
  from run_geometry[OF assms this] show "\<exists>g. compute_geometry pow2 p c = Inr g" by blast
qed

lemma metrics_nth:
  assumes "filter_candidates pow2 ps c cfg = Inr r" and "k < length (metrics r)"
  shows "\<exists>j<length ps. \<not> is_empty (ps ! j) \<and> accepted_by pow2 c cfg (ps ! j)
           \<and> polygons r ! k = ps ! j \<and> metrics r ! k = metric_for pow2 c cfg (j, ps ! j)"
proof -
  let ?sel = "selected pow2 c cfg 0 ps"
  have r: "r = \<lparr>polygons = map snd ?sel, metrics = map (metric_for pow2 c cfg) ?sel\<rparr>"
    by (rule filter_candidates_spec[OF assms(1)])
  have k: "k < length ?sel" using assms(2) by (subst (asm) r) simp
  obtain j p where jp: "?sel ! k = (j, p)" by (cases "?sel ! k")
  from selected_nth[OF k] jp have *: "j < length ps" "p = ps ! j" "accepted_by pow2 c cfg p"
    by auto
  have "polygons r ! k = p" "metrics r ! k = metric_for pow2 c cfg (j, p)"
    using k jp by (subst r, simp)+
  with * show ?thesis by (auto simp: accepted_by_def)
qed

lemma length_filter_zip_le:
  assumes "\<And>y. Q y \<Longrightarrow> P y"
  shows "length (filter (\<lambda>ip. Q (snd ip)) (zip xs ys)) \<le> length (filter P ys)"
proof (induction ys arbitrary: xs)
  case Nil
  then show ?case by simp
next
  case (Cons y ys)
  show ?case
  proof (cases xs)
    case Nil
    then show ?thesis by simp
  next
    case (Cons x xs')
    with Cons.IH[of xs'] assms[of y] show ?thesis by auto
  qed
qed

subsection \<open>Calibration and geometry\<close>

lemma py_gt_not_le: "py_gt x (Fl 0) \<Longrightarrow> \<not> py_le x (Fl 0)"
  by (cases x) (auto simp: py_le_def py_gt_def py_eq_def py_lt_def)

lemma py_gt_zero_nonzero: "py_gt x (Fl 0) \<Longrightarrow> \<not> py_eq x (Fl 0)"
  by (cases x) (auto simp: py_gt_def py_eq_def py_lt_def)

lemma py_pow2_finite:
  "finite_value f = Some x \<Longrightarrow> py_pow2 pow2 f = Inr sq \<Longrightarrow> \<exists>s. finite_value sq = Some s"
  by (cases f; cases "pow2 \<bar>x\<bar>")
     (auto simp: py_pow2_def split: if_splits dest: sym[of "Fl _" "pow2 _"])

lemma py_mul_zero:
  "py_eq x (Fl 0) \<Longrightarrow> finite_value y = Some s \<Longrightarrow> py_eq (py_mul x y) (Fl 0)"
  by (cases x; cases y) (auto simp: py_eq_def py_mul_def signed_zero_def split: if_splits)

lemma round_double_zero: "round_double 0 = Fl 0"
  by (simp add: round_double_def)

subsection \<open>The file system\<close>

lemma lookup_upd: "p \<noteq> [] \<Longrightarrow> lookup (fs(p \<mapsto> n)) q = (if q = p then Some n else lookup fs q)"
  by (auto simp: lookup_def)

lemma take_butlast_le: "p \<noteq> [] \<Longrightarrow> k \<le> length (butlast p) \<Longrightarrow> take k (butlast p) = take k p"
  by (cases p rule: rev_cases) auto

lemma take_proper: "k < length p \<Longrightarrow> take k p \<noteq> p"
  by (metis length_take min.absorb4 nat_neq_iff)

lemma unobstructed_butlast: "p \<noteq> [] \<Longrightarrow> unobstructed fs p \<Longrightarrow> unobstructed fs (butlast p)"
  unfolding unobstructed_def
proof (intro allI impI)
  fix k t assume p: "p \<noteq> []" and un: "\<forall>k\<le>length p. \<forall>t. lookup fs (take k p) \<noteq> Some (File t)"
    and k: "k \<le> length (butlast p)"
  from k have "k \<le> length p" by simp
  with un have "lookup fs (take k p) \<noteq> Some (File t)" by blast
  with take_butlast_le[OF p k] show "lookup fs (take k (butlast p)) \<noteq> Some (File t)" by simp
qed

lemma avoids_butlast:
  "p \<noteq> [] \<Longrightarrow> \<forall>k\<le>length p. q \<noteq> take k p \<Longrightarrow> \<forall>k\<le>length (butlast p). q \<noteq> take k (butlast p)"
proof (intro allI impI)
  fix k assume p: "p \<noteq> []" and q: "\<forall>k\<le>length p. q \<noteq> take k p" and k: "k \<le> length (butlast p)"
  from k have "k \<le> length p" by simp
  with q have "q \<noteq> take k p" by blast
  with take_butlast_le[OF p k] show "q \<noteq> take k (butlast p)" by simp
qed

lemma dirs_butlast:
  assumes "p \<noteq> []" and "\<forall>k\<le>length (butlast p). lookup fs (take k (butlast p)) = Some Dir"
    and "k < length p"
  shows "lookup fs (take k p) = Some Dir"
proof -
  from assms(3) have k: "k \<le> length (butlast p)" by simp
  with assms(2) have "lookup fs (take k (butlast p)) = Some Dir" by blast
  with take_butlast_le[OF assms(1) k] show ?thesis by simp
qed

lemma well_formed_ancestors:
  assumes "well_formed fs" and "lookup fs p = Some Dir"
  shows "k \<le> length p \<Longrightarrow> lookup fs (take k p) = Some Dir"
proof (induction "length p - k" arbitrary: k)
  case 0
  then show ?case using assms(2) by simp
next
  case (Suc d)
  then have k: "Suc k \<le> length p" by simp
  from Suc(1)[of "Suc k"] Suc(2) k have up: "lookup fs (take (Suc k) p) = Some Dir" by simp
  have ne: "take (Suc k) p \<noteq> []" using k by auto
  with up have "fs (take (Suc k) p) \<noteq> None" by (simp add: lookup_def)
  with assms(1) have "lookup fs (butlast (take (Suc k) p)) = Some Dir"
    by (simp add: well_formed_def)
  moreover have "butlast (take (Suc k) p) = take k p"
    using k by (simp add: butlast_take)
  ultimately show ?case by simp
qed

lemma mkdir_parents_frame:
  "mkdir_parents p fs = Inr fs' \<Longrightarrow> (\<forall>k\<le>length p. q \<noteq> take k p) \<Longrightarrow> lookup fs' q = lookup fs q"
proof (induction p fs arbitrary: fs' rule: mkdir_parents.induct)
  case (1 p fs)
  have qp: "q \<noteq> p" using "1.prems"(2) by (auto dest: spec[of _ "length p"])
  show ?case
  proof (cases "lookup fs p")
    case None
    then have pne: "p \<noteq> []" by (auto simp: lookup_def)
    show ?thesis
    proof (cases "lookup fs (butlast p)")
      case None': None
      with None "1.prems"(1) obtain fs1 where rec: "mkdir_parents (butlast p) fs = Inr fs1"
        and fs': "fs' = fs1(p \<mapsto> Dir)"
        by (subst (asm) mkdir_parents.simps) (auto split: sum.splits)
      have "\<forall>k\<le>length (butlast p). q \<noteq> take k (butlast p)"
        using "1.prems"(2) pne by (rule avoids_butlast[rotated])
      from fs' have "lookup fs' q = lookup (fs1(p \<mapsto> Dir)) q" by simp
      also have "\<dots> = lookup fs1 q"
        using qp pne by (simp add: lookup_upd)
      also from "1.IH"[OF None None' rec \<open>\<forall>k\<le>length (butlast p). q \<noteq> take k (butlast p)\<close>]
      have "\<dots> = lookup fs q" .
      finally show ?thesis .
    next
      case (Some n)
      with None "1.prems"(1) have fs': "fs' = fs(p \<mapsto> Dir)"
        by (subst (asm) mkdir_parents.simps) (auto split: node.splits)
      from fs' have "lookup fs' q = lookup (fs(p \<mapsto> Dir)) q" by simp
      also have "\<dots> = lookup fs q"
        using qp pne by (simp add: lookup_upd)
      finally show ?thesis .
    qed
  next
    case (Some n)
    with "1.prems"(1) have "fs' = fs"
      by (subst (asm) mkdir_parents.simps) (auto split: node.splits)
    then show ?thesis by simp
  qed
qed

lemma mkdir_parents_makes:
  "well_formed fs \<Longrightarrow> unobstructed fs p \<Longrightarrow>
   \<exists>fs'. mkdir_parents p fs = Inr fs' \<and> (\<forall>k\<le>length p. lookup fs' (take k p) = Some Dir)"
proof (induction p fs rule: mkdir_parents.induct)
  case (1 p fs)
  note wf = "1.prems"(1) and un = "1.prems"(2)
  show ?case
  proof (cases "lookup fs p")
    case None
    then have pne: "p \<noteq> []" by (auto simp: lookup_def)
    show ?thesis
    proof (cases "lookup fs (butlast p)")
      case None': None
      have "unobstructed fs (butlast p)"
        using pne un by (rule unobstructed_butlast)
      from "1.IH"[OF None None' wf this] obtain fs1 where
        rec: "mkdir_parents (butlast p) fs = Inr fs1" and
        dirs: "\<forall>k\<le>length (butlast p). lookup fs1 (take k (butlast p)) = Some Dir" by blast
      have res: "mkdir_parents p fs = Inr (fs1(p \<mapsto> Dir))"
        using None None' rec by (subst mkdir_parents.simps) simp
      have "lookup (fs1(p \<mapsto> Dir)) (take k p) = Some Dir" if "k \<le> length p" for k
      proof (cases "k = length p")
        case True
        then show ?thesis using pne by (simp add: lookup_upd)
      next
        case False
        with that have k: "k < length p" by simp
        then have "take k p \<noteq> p" by (rule take_proper)
        moreover from dirs_butlast[OF pne dirs k] have "lookup fs1 (take k p) = Some Dir" .
        ultimately show ?thesis using pne by (simp add: lookup_upd)
      qed
      with res show ?thesis by blast
    next
      case (Some n)
      from un have "lookup fs (take (length p - 1) p) \<noteq> Some (File t)" for t
        by (simp add: unobstructed_def)
      then have "lookup fs (butlast p) \<noteq> Some (File t)" for t
        by (simp add: butlast_conv_take)
      with Some have par: "lookup fs (butlast p) = Some Dir"
        by (cases n) auto
      have res: "mkdir_parents p fs = Inr (fs(p \<mapsto> Dir))"
        using None par by (subst mkdir_parents.simps) simp
      have "lookup (fs(p \<mapsto> Dir)) (take k p) = Some Dir" if "k \<le> length p" for k
      proof (cases "k = length p")
        case True
        then show ?thesis using pne by (simp add: lookup_upd)
      next
        case False
        with that have k: "k < length p" by simp
        then have ne: "take k p \<noteq> p" by (rule take_proper)
        from k have kb: "k \<le> length (butlast p)" by simp
        from well_formed_ancestors[OF wf par kb] take_butlast_le[OF pne kb]
        have "lookup fs (take k p) = Some Dir" by simp
        with ne pne show ?thesis by (simp add: lookup_upd)
      qed
      with res show ?thesis by blast
    qed
  next
    case (Some n)
    from un have "lookup fs (take (length p) p) \<noteq> Some (File t)" for t
      unfolding unobstructed_def by blast
    with Some have d: "lookup fs p = Some Dir" by (cases n) auto
    then have res: "mkdir_parents p fs = Inr fs"
      by (subst mkdir_parents.simps) simp
    from well_formed_ancestors[OF wf d] res show ?thesis by blast
  qed
qed

lemma export_to_csv_writes:
  assumes wf: "well_formed fs" and un: "unobstructed fs (butlast path)"
      and target: "lookup fs path \<noteq> Some Dir"
  shows "\<exists>fs'. export_to_csv ms path fs = Inr fs'
     \<and> lookup fs' path = Some (File (concat (csv_rows ms)))
     \<and> (\<forall>k<length path. lookup fs' (take k path) = Some Dir)
     \<and> (\<forall>q. (\<forall>k\<le>length path. q \<noteq> take k path) \<longrightarrow> lookup fs' q = lookup fs q)"
proof -
  from target have pne: "path \<noteq> []" by (auto simp: lookup_def)
  from mkdir_parents_makes[OF wf un] obtain fs1 where
    mk: "mkdir_parents (butlast path) fs = Inr fs1" and
    dirs: "\<forall>k\<le>length (butlast path). lookup fs1 (take k (butlast path)) = Some Dir" by blast
  have "\<forall>k\<le>length (butlast path). path \<noteq> take k (butlast path)"
  proof (intro allI impI)
    fix k assume k: "k \<le> length (butlast path)"
    from pne have "0 < length path" by simp
    moreover from k have "k \<le> length path - 1" by simp
    ultimately have "k < length path" by arith
    from take_proper[OF this] have "take k path \<noteq> path" .
    with take_butlast_le[OF pne k] show "path \<noteq> take k (butlast path)"
      by metis
  qed
  from mkdir_parents_frame[OF mk this] target have t1: "lookup fs1 path \<noteq> Some Dir" by simp
  from dirs have "lookup fs1 (take (length (butlast path)) (butlast path)) = Some Dir"
    by blast
  then have par: "lookup fs1 (butlast path) = Some Dir" by simp
  let ?fs' = "fs1(path \<mapsto> File (concat (csv_rows ms)))"
  have ow: "open_write path (concat (csv_rows ms)) fs1 = Inr ?fs'"
    using t1 par by (auto simp: open_write_def split: option.splits node.splits)
  have ex: "export_to_csv ms path fs = Inr ?fs'"
    by (simp add: export_to_csv_def mk ow)
  have a: "lookup ?fs' path = Some (File (concat (csv_rows ms)))"
    using pne by (simp add: lookup_upd)
  have b: "lookup ?fs' (take k path) = Some Dir" if "k < length path" for k
  proof -
    from that have "take k path \<noteq> path" by (rule take_proper)
    moreover from dirs_butlast[OF pne dirs that] have "lookup fs1 (take k path) = Some Dir" .
    ultimately show ?thesis using pne by (simp add: lookup_upd)
  qed
  have c: "lookup ?fs' q = lookup fs q" if q: "\<forall>k\<le>length path. q \<noteq> take k path" for q
  proof -
    from q have qp: "q \<noteq> path" by (auto dest: spec[of _ "length path"])
    have "\<forall>k\<le>length (butlast path). q \<noteq> take k (butlast path)"
      using pne q by (rule avoids_butlast)
    from mkdir_parents_frame[OF mk this] have "lookup fs1 q = lookup fs q" .
    moreover have "lookup ?fs' q = lookup fs1 q" using qp pne by (simp add: lookup_upd)
    ultimately show ?thesis by simp
  qed
  from ex a b c show ?thesis by blast
qed

subsection \<open>The raster stages\<close>

lemma recording_library_runs:
  "adaptive_block_size config mod 2 \<noteq> 0 \<Longrightarrow>
   run_pipeline recording_library pow2 pdf_path page_number calibration config
     = Inr \<lparr>polygons = [], metrics = []\<rparr>"
  by (simp add: run_pipeline_def render_pdf_to_grayscale_def adaptive_binarize_def
        thickness_gate_def find_closed_contours_def recording_library_def
        filter_candidates_def split: option.splits)

subsection \<open>Accepted regions\<close>

lemma add_region_next: "next_id (snd (add_region m pg a p pts)) = next_id m + 1"
  by (simp add: add_region_def Let_def)

lemma add_region_id: "region_id (fst (add_region m pg a p pts)) = next_id m"
  by (simp add: add_region_def Let_def)

lemma add_region_regions:
  "regions_attr (snd (add_region m pg a p pts)) = regions_attr m @ [fst (add_region m pg a p pts)]"
  by (simp add: add_region_def Let_def)

lemma run_calls_Add:
  "run_calls m (Add pg a p pts # cs) =
     (fst (run_calls (snd (add_region m pg a p pts)) cs),
      next_id m # snd (run_calls (snd (add_region m pg a p pts)) cs))"
  by (simp add: add_region_def Let_def split: prod.splits)

lemma stored_below_init: "stored_below model_init"
  by (simp add: stored_below_def model_init_def)

lemma stored_below_add: "stored_below m \<Longrightarrow> stored_below (snd (add_region m pg a p pts))"
  by (auto simp: stored_below_def add_region_def Let_def sorted_wrt_append list_all_iff)

lemma stored_below_remove: "stored_below m \<Longrightarrow> stored_below (remove_region m rid)"
  by (auto simp: stored_below_def remove_region_def list_all_iff sorted_wrt_map
        intro: sorted_wrt_filter)

lemma run_calls_ids:
  "run_calls m cs = (final, ids) \<Longrightarrow> stored_below m \<Longrightarrow>
   stored_below final
   \<and> ids = [next_id m .. next_id final - 1]
   \<and> next_id m \<le> next_id final
   \<and> set (map region_id (regions_attr final))
        \<subseteq> set (map region_id (regions_attr m)) \<union> set ids"
proof (induction m cs arbitrary: final ids rule: run_calls.induct)
  case (1 self)
  then show ?case by simp
next
  case (2 self pg a p pts cs)
  let ?m = "snd (add_region self pg a p pts)"
  obtain final' ids' where rec: "run_calls ?m cs = (final', ids')" by (cases "run_calls ?m cs")
  from "2.prems"(1) rec have fin: "final = final'" and ids: "ids = next_id self # ids'"
    by (simp_all only: run_calls_Add fst_conv snd_conv prod.inject)
  have sb: "stored_below ?m" using "2.prems"(2) by (rule stored_below_add)
  have "add_region self pg a p pts = (fst (add_region self pg a p pts), ?m)" by simp
  from "2.IH"[OF this[symmetric] rec sb]
  have ih: "stored_below final'"
    "ids' = [next_id ?m .. next_id final' - 1]"
    "next_id ?m \<le> next_id final'"
    "set (map region_id (regions_attr final')) \<subseteq> set (map region_id (regions_attr ?m)) \<union> set ids'"
    by auto
  have nx: "next_id ?m = next_id self + 1" by (rule add_region_next)
  from ih(3) nx have le: "next_id self \<le> next_id final' - 1" by simp
  have a: "ids = [next_id self .. next_id final - 1]"
    unfolding ids fin using ih(2) nx upto_rec1[OF le] by simp
  have b: "next_id self \<le> next_id final" using le fin by simp
  have c: "set (map region_id (regions_attr final))
        \<subseteq> set (map region_id (regions_attr self)) \<union> set ids"
    using ih(4) unfolding fin ids by (auto simp: add_region_regions add_region_id)
  from ih(1) fin a b c show ?case by simp
next
  case (3 self rid cs)
  from "3.prems" have rec: "run_calls (remove_region self rid) cs = (final, ids)" by simp
  have sb: "stored_below (remove_region self rid)" using "3.prems"(2) by (rule stored_below_remove)
  from "3.IH"[OF rec sb] show ?case
    by (auto simp: remove_region_def)
qed

lemma distinct_filter_eq_le: "distinct xs \<Longrightarrow> length (filter (\<lambda>i. i = x) xs) \<le> 1"
  by (induction xs) (auto simp: filter_empty_conv)

subsection \<open>Rounding in the geometry\<close>

lemma geometry_error_bounds:
  assumes es: "\<bar>s - x * x\<bar> \<le> \<bar>x * x\<bar> * d" and a: "round_double (A * s) = Fl a"
      and na: "normal_range (A * s)"
  shows "\<bar>a - A * (x * x)\<bar> \<le> \<bar>A * (x * x)\<bar> * (d + (1 + d) / 2 ^ 53)"
proof -
  let ?e = "(1::rat) / 2 ^ 53"
  have ea: "\<bar>a - A * s\<bar> \<le> \<bar>A * s\<bar> * ?e"
    using round_double_relative[OF a na] by simp
  have "\<bar>s\<bar> \<le> \<bar>x * x\<bar> + \<bar>s - x * x\<bar>" by linarith
  with es have sb: "\<bar>s\<bar> \<le> \<bar>x * x\<bar> * (1 + d)" by (simp add: algebra_simps)
  have "\<bar>a - A * (x * x)\<bar> \<le> \<bar>a - A * s\<bar> + \<bar>A * (s - x * x)\<bar>"
    by (simp add: algebra_simps)
  also have "\<dots> \<le> \<bar>A\<bar> * \<bar>s\<bar> * ?e + \<bar>A\<bar> * \<bar>s - x * x\<bar>"
    using ea by (simp add: abs_mult)
  also have "\<dots> \<le> \<bar>A\<bar> * (\<bar>x * x\<bar> * (1 + d)) * ?e + \<bar>A\<bar> * (\<bar>x * x\<bar> * d)"
    using sb es by (intro add_mono mult_right_mono mult_left_mono) simp_all
  also have "\<dots> = \<bar>A * (x * x)\<bar> * (d + (1 + d) / 2 ^ 53)"
    by (simp add: abs_mult algebra_simps)
  finally show ?thesis .
qed

lemma py_mul_finite:
  "a * b \<noteq> 0 \<Longrightarrow> py_mul (Fl a) (Fl b) = round_double (a * b)"
  by (simp add: py_mul_def)

lemma py_pow2_cong:
  "pow2 \<bar>a\<bar> = pow2' \<bar>a\<bar> \<Longrightarrow> py_pow2 pow2 (Fl a) = py_pow2 pow2' (Fl a)"
  by (simp add: py_pow2_def)

lemma compute_geometry_cong:
  "feet_per_pixel c = Inr f \<Longrightarrow> py_pow2 pow2 f = py_pow2 pow2' f \<Longrightarrow>
   compute_geometry pow2 p c = compute_geometry pow2' p c"
  by (simp add: compute_geometry_def)

lemma filter_loop_cong:
  assumes "feet_per_pixel c = Inr f" and "py_pow2 pow2 f = py_pow2 pow2' f"
  shows "filter_loop pow2 i ps c cfg ms acc = filter_loop pow2' i ps c cfg ms acc"
proof (induction ps arbitrary: i ms acc)
  case Nil
  show ?case by simp
next
  case (Cons p ps)
  have g: "compute_geometry pow2 p c = compute_geometry pow2' p c"
    by (rule compute_geometry_cong[OF assms])
  show ?case by (simp add: g Cons.IH Let_def split: sum.splits prod.splits)
qed

lemma filter_candidates_cong:
  "feet_per_pixel c = Inr f \<Longrightarrow> py_pow2 pow2 f = py_pow2 pow2' f \<Longrightarrow>
   filter_candidates pow2 ps c cfg = filter_candidates pow2' ps c cfg"
  unfolding filter_candidates_def by (rule filter_loop_cong)

lemma feet_per_pixel_positive:
  "0 < a \<Longrightarrow> 0 < b \<Longrightarrow>
   feet_per_pixel \<lparr>pixel_distance = Fl a, real_distance_feet = Fl b\<rparr> = Inr (round_double (b / a))"
  by (simp add: feet_per_pixel_def py_le_def py_eq_def py_lt_def py_truediv_def)

lemma tiny_feet_per_pixel: "feet_per_pixel tiny_calibration = Inr PosInf"
proof -
  have a: "(0::rat) < 1 / 2 ^ 1074" and b: "(0::rat) < 1" by simp_all
  have "feet_per_pixel tiny_calibration = Inr (round_double (1 / (1 / 2 ^ 1074)))"
    unfolding tiny_calibration_def by (rule feet_per_pixel_positive[OF a b])
  then show ?thesis by (simp only: least_float_reciprocal)
qed

lemma infinite_scale_geometry:
  assumes "feet_per_pixel c = Inr PosInf" and "area p = Fl 0" and "length_of p = Fl L" and "0 < L"
  shows "compute_geometry pow2 p c = Inr (NaN, PosInf)"
  using assms by (simp add: compute_geometry_def py_pow2_def py_mul_def signed_inf_def)

section \<open>Evaluated runs\<close>

text \<open>
  The runs used as examples below, evaluated with the definitions above and the C library
  that squares to the nearest float. The scale of the scenario's calibration prints as
  \<^verbatim>\<open>0.1\<close> and its square as \<^verbatim>\<open>0.010000000000000002\<close>.
\<close>

lemma scenario_scale:
  "feet_per_pixel scenario_calibration = Inr (float_lit (1 / 10))
   \<and> py_pow2 nearest_square (float_lit (1 / 10)) = Inr (Fl (1441151880758559 / 2 ^ 57))"
  by code_simp

lemma scenario_numbers:
  "float_lit (1 / 10) = Fl (3602879701896397 / 2 ^ 55)
   \<and> area scenario_polygon = Fl 5000 \<and> length_of scenario_polygon = Fl 300
   \<and> nearest_square (3602879701896397 / 2 ^ 55) = Fl (1441151880758559 / 2 ^ 57)
   \<and> float_lit (10000000000000002 / 10 ^ 18) = Fl (1441151880758559 / 2 ^ 57)
   \<and> round_double (5000 * (1441151880758559 / 2 ^ 57)) = Fl (50 + 1 / 2 ^ 47)
   \<and> round_double (300 * (3602879701896397 / 2 ^ 55)) = Fl 30
   \<and> normal_range (5000 * (1441151880758559 / 2 ^ 57))
   \<and> normal_range (300 * (3602879701896397 / 2 ^ 55))
   \<and> \<bar>1441151880758559 / 2 ^ 57 - 3602879701896397 / 2 ^ 55 * (3602879701896397 / 2 ^ 55)\<bar>
       \<le> \<bar>3602879701896397 / 2 ^ 55 * (3602879701896397 / 2 ^ 55)\<bar> * (1 / 2 ^ 53 :: rat)"
  by code_simp

lemma doubled_scale:
  "compute_geometry nearest_square scenario_polygon \<lparr>pixel_distance = Fl 100, real_distance_feet = Fl 20\<rparr>
     = Inr (Fl (4 * (50 + 1 / 2 ^ 47)), Fl (2 * 30))"
  by code_simp

lemma scenario_values:
  "sanity_score scenario_polygon = Inr (float_lit (6 / 100))
   \<and> int (length (exterior_coords scenario_polygon)) = 5
   \<and> min_area_sqft default_config = float_lit 1
   \<and> max_vertex_count default_config = 1000
   \<and> sanity_ratio_threshold default_config = float_lit (8 / 10)
   \<and> py_lt (float_lit 50) (Fl (50 + 1 / 2 ^ 47))
   \<and> str_float (Fl (50 + 1 / 2 ^ 47)) = ''50.00000000000001''"
  by code_simp

lemma scenario_run:
  "compute_geometry nearest_square scenario_polygon scenario_calibration
     = Inr (Fl (50 + 1 / 2 ^ 47), float_lit 30)
   \<and> filter_candidates nearest_square [scenario_polygon] scenario_calibration default_config
       = Inr \<lparr>polygons = [scenario_polygon], metrics = [scenario_metrics]\<rparr>"
  by code_simp

lemma mixed_run:
  "filter_candidates nearest_square mixed_polygons scenario_calibration strict_config
     = Inr mixed_result"
  by code_simp

lemma line_run:
  "filter_candidates nearest_square [line_polygon] scenario_calibration zero_area_config
     = Inr line_result"
  by code_simp

lemma scenario_rows:
  "split_lines [] (concat (csv_rows [stated_metrics]))
     = [''contour_index,area_sqft,perimeter_lf,vertex_count,sanity_score,flagged'',
        ''0,50.0,30.0,4,0.06,False'']"
  by code_simp

lemma example_run:
  "snd (run_calls model_init example_calls) = [1, 2, 3, 4]
   \<and> map region_id (regions (fst (run_calls model_init example_calls))) = [1, 3, 4]
   \<and> next_id (fst (run_calls model_init example_calls)) = 5"
  by code_simp

section \<open>The claims\<close>

subsection \<open>Calibration\<close>

text \<open>
  C1, as the code has it. For a calibration whose two distances are strictly positive,
  \<^verbatim>\<open>feet_per_pixel\<close> is the float quotient of the real distance by the pixel distance,
  and reading it does not raise. When one of the distances is at most zero, reading
  \<^verbatim>\<open>feet_per_pixel\<close> raises \<^verbatim>\<open>ValueError\<close> (the design's InvalidCalibration);
  \<^verbatim>\<open>compute_geometry\<close> reads it before it computes anything, so it raises the same
  error for every polygon, and \<^verbatim>\<open>filter_candidates\<close> raises it as soon as the input
  holds a polygon that is not empty, and returns an empty result when it holds none.
  Constructing the calibration itself never fails.
\<close>

theorem calibration_checked_on_read:
  "(py_gt (pixel_distance c) (Fl 0) \<and> py_gt (real_distance_feet c) (Fl 0) \<longrightarrow>
      feet_per_pixel c = py_truediv (real_distance_feet c) (pixel_distance c)
      \<and> (\<exists>f. feet_per_pixel c = Inr f))
   \<and> (\<forall>a b. pixel_distance c = Fl a \<and> real_distance_feet c = Fl b \<and> 0 < a \<and> 0 < b \<longrightarrow>
        feet_per_pixel c = Inr (round_double (b / a)))
   \<and> (py_le (pixel_distance c) (Fl 0) \<or> py_le (real_distance_feet c) (Fl 0) \<longrightarrow>
        (\<exists>msg. feet_per_pixel c = Inl (ValueError msg)
           \<and> (\<forall>p. compute_geometry pow2 p c = Inl (ValueError msg))
           \<and> (\<forall>ps cfg. (\<exists>p\<in>set ps. \<not> is_empty p) \<longrightarrow>
                 filter_candidates pow2 ps c cfg = Inl (ValueError msg))
           \<and> (\<forall>ps cfg. (\<forall>p\<in>set ps. is_empty p) \<longrightarrow>
                 filter_candidates pow2 ps c cfg = Inr \<lparr>polygons = [], metrics = []\<rparr>)))
   \<and> Calibration_init (pixel_distance c) (real_distance_feet c) = Inr c"
proof (intro conjI allI impI)
  assume pos: "py_gt (pixel_distance c) (Fl 0) \<and> py_gt (real_distance_feet c) (Fl 0)"
  then show eq: "feet_per_pixel c = py_truediv (real_distance_feet c) (pixel_distance c)"
    by (simp add: feet_per_pixel_def py_gt_not_le)
  from pos have "\<not> py_eq (pixel_distance c) (Fl 0)" by (simp add: py_gt_zero_nonzero)
  from py_truediv_total[OF this] eq show "\<exists>f. feet_per_pixel c = Inr f" by simp
next
  fix a b
  assume "pixel_distance c = Fl a \<and> real_distance_feet c = Fl b \<and> 0 < a \<and> 0 < b"
  then show "feet_per_pixel c = Inr (round_double (b / a))"
    by (simp add: feet_per_pixel_def py_le_def py_eq_def py_lt_def py_truediv_def)
next
  assume bad: "py_le (pixel_distance c) (Fl 0) \<or> py_le (real_distance_feet c) (Fl 0)"
  have "\<exists>msg. feet_per_pixel c = Inl (ValueError msg)"
  proof (cases "py_le (pixel_distance c) (Fl 0)")
    case True
    then show ?thesis by (simp add: feet_per_pixel_def)
  next
    case False
    with bad show ?thesis by (simp add: feet_per_pixel_def)
  qed
  then obtain msg where m: "feet_per_pixel c = Inl (ValueError msg)" by blast
  have g: "compute_geometry pow2 p c = Inl (ValueError msg)" for p
    using m by (simp add: compute_geometry_def)
  have raise: "filter_candidates pow2 ps c cfg = Inl (ValueError msg)"
    if "\<exists>p\<in>set ps. \<not> is_empty p" for ps cfg
  proof -
    from that obtain p where "p \<in> set ps" "\<not> is_empty p" by blast
    from filter_loop_raises[OF this g] show ?thesis by (simp add: filter_candidates_def)
  qed
  have skip: "filter_candidates pow2 ps c cfg = Inr \<lparr>polygons = [], metrics = []\<rparr>"
    if "\<forall>p\<in>set ps. is_empty p" for ps cfg
  proof -
    have "filter_loop pow2 i ps c cfg ms acc = Inr \<lparr>polygons = acc, metrics = ms\<rparr>" for i ms acc
      using that by (induction ps arbitrary: i) auto
    then show ?thesis by (simp add: filter_candidates_def)
  qed
  show "\<exists>msg. feet_per_pixel c = Inl (ValueError msg)
           \<and> (\<forall>p. compute_geometry pow2 p c = Inl (ValueError msg))
           \<and> (\<forall>ps cfg. (\<exists>p\<in>set ps. \<not> is_empty p) \<longrightarrow>
                 filter_candidates pow2 ps c cfg = Inl (ValueError msg))
           \<and> (\<forall>ps cfg. (\<forall>p\<in>set ps. is_empty p) \<longrightarrow>
                 filter_candidates pow2 ps c cfg = Inr \<lparr>polygons = [], metrics = []\<rparr>)"
    using m g raise skip by blast
next
  show "Calibration_init (pixel_distance c) (real_distance_feet c) = Inr c"
    by (simp add: Calibration_init_def)
qed

text \<open>
  The theorem at the calibration of the scenario, and at one of zero pixels to ten feet
  with the scenario's polygon.
\<close>

theorem calibration_checked_on_read_witness:
  "feet_per_pixel scenario_calibration = Inr (round_double (10 / 100))
   \<and> py_le (Fl 0) (Fl 0)
   \<and> (\<exists>msg. feet_per_pixel \<lparr>pixel_distance = Fl 0, real_distance_feet = Fl 10\<rparr>
           = Inl (ValueError msg)
        \<and> compute_geometry nearest_square scenario_polygon \<lparr>pixel_distance = Fl 0, real_distance_feet = Fl 10\<rparr>
           = Inl (ValueError msg)
        \<and> filter_candidates nearest_square [scenario_polygon]
             \<lparr>pixel_distance = Fl 0, real_distance_feet = Fl 10\<rparr> default_config
           = Inl (ValueError msg))"
proof -
  let ?bad = "\<lparr>pixel_distance = Fl 0, real_distance_feet = Fl 10\<rparr>"
  have good: "pixel_distance scenario_calibration = Fl 100
      \<and> real_distance_feet scenario_calibration = Fl 10 \<and> (0::rat) < 100 \<and> (0::rat) < 10"
    by (simp add: scenario_calibration_def)
  from calibration_checked_on_read[of scenario_calibration, THEN conjunct2, THEN conjunct1] good
  have a: "feet_per_pixel scenario_calibration = Inr (round_double (10 / 100))"
    by blast
  have le: "py_le (Fl 0) (Fl 0)" by (simp add: py_le_def py_eq_def)
  then have bad: "py_le (pixel_distance ?bad) (Fl 0) \<or> py_le (real_distance_feet ?bad) (Fl 0)"
    by simp
  have ne: "\<exists>p\<in>set [scenario_polygon]. \<not> is_empty p"
    by (simp add: scenario_polygon_def)
  from calibration_checked_on_read[of ?bad nearest_square, THEN conjunct2, THEN conjunct2, THEN conjunct1] bad
  obtain msg where m: "feet_per_pixel ?bad = Inl (ValueError msg)"
    "\<forall>p. compute_geometry nearest_square p ?bad = Inl (ValueError msg)"
    "\<forall>ps cfg. (\<exists>p\<in>set ps. \<not> is_empty p) \<longrightarrow>
       filter_candidates nearest_square ps ?bad cfg = Inl (ValueError msg)"
    by blast
  from m(3) ne have "filter_candidates nearest_square [scenario_polygon] ?bad default_config = Inl (ValueError msg)"
    by blast
  with a le m(1) m(2) show ?thesis by blast
qed

text \<open>
  The claim as stated fails where it says that constructing fails: the constructor returns
  the calibration of zero pixels, and a run of the filter with it over an empty polygon
  returns without any error.
\<close>

theorem calibration_construction_counterexample:
  "Calibration_init (Fl 0) (Fl 10) = Inr \<lparr>pixel_distance = Fl 0, real_distance_feet = Fl 10\<rparr>
   \<and> py_le (Fl 0) (Fl 0)
   \<and> filter_candidates nearest_square [empty_polygon]
        \<lparr>pixel_distance = Fl 0, real_distance_feet = Fl 10\<rparr> default_config
       = Inr \<lparr>polygons = [], metrics = []\<rparr>"
  by code_simp

subsection \<open>The rectangle scenario\<close>

text \<open>
  C2, as the code has it. With 100 pixels calibrated to 10 feet, \<^verbatim>\<open>feet_per_pixel\<close> is
  the float \<^verbatim>\<open>0.1\<close>. The rectangle of 100 by 50 pixels has an area of 5000, a length of
  300 and a ring of five coordinates. Where the C library squares the float \<^verbatim>\<open>0.1\<close> to
  \<^verbatim>\<open>0.010000000000000002\<close>, as CPython prints \<^verbatim>\<open>0.1 ** 2\<close>, the pipeline yields a
  perimeter of \<^verbatim>\<open>30.0\<close>, a sanity score of \<^verbatim>\<open>0.06\<close>, an area of
  \<^verbatim>\<open>50.00000000000001\<close>, the float next above 50, and a vertex count of 5: the count
  is the length of the ring. Under the thresholds 1.0, 1000 and 0.8, which are the
  defaults, the candidate is accepted, with index 0 and not flagged.
\<close>

theorem rectangle_scenario_run:
  assumes sq: "pow2 (3602879701896397 / 2 ^ 55) = float_lit (10000000000000002 / 10 ^ 18)"
  shows "feet_per_pixel scenario_calibration = Inr (float_lit (1 / 10))
   \<and> float_lit (1 / 10) = Fl (3602879701896397 / 2 ^ 55)
   \<and> compute_geometry pow2 scenario_polygon scenario_calibration
       = Inr (Fl (50 + 1 / 2 ^ 47), float_lit 30)
   \<and> sanity_score scenario_polygon = Inr (float_lit (6 / 100))
   \<and> int (length (exterior_coords scenario_polygon)) = 5
   \<and> min_area_sqft default_config = float_lit 1
   \<and> max_vertex_count default_config = 1000
   \<and> sanity_ratio_threshold default_config = float_lit (8 / 10)
   \<and> filter_candidates pow2 [scenario_polygon] scenario_calibration default_config
       = Inr \<lparr>polygons = [scenario_polygon], metrics = [scenario_metrics]\<rparr>
   \<and> py_lt (float_lit 50) (Fl (50 + 1 / 2 ^ 47))
   \<and> str_float (Fl (50 + 1 / 2 ^ 47)) = ''50.00000000000001''"
proof -
  let ?x = "3602879701896397 / 2 ^ 55 :: rat"
  note fpp = scenario_scale[THEN conjunct1]
  have x: "float_lit (1 / 10) = Fl ?x" using scenario_numbers by blast
  have "nearest_square ?x = float_lit (10000000000000002 / 10 ^ 18)"
    using scenario_numbers by simp
  with sq have "pow2 \<bar>?x\<bar> = nearest_square \<bar>?x\<bar>" by simp
  then have "py_pow2 pow2 (Fl ?x) = py_pow2 nearest_square (Fl ?x)"
    by (rule py_pow2_cong)
  then have p: "py_pow2 pow2 (float_lit (1 / 10)) = py_pow2 nearest_square (float_lit (1 / 10))"
    by (simp only: x)
  have g: "compute_geometry pow2 scenario_polygon scenario_calibration
       = Inr (Fl (50 + 1 / 2 ^ 47), float_lit 30)"
    using compute_geometry_cong[OF fpp p] scenario_run by simp
  have r: "filter_candidates pow2 [scenario_polygon] scenario_calibration default_config
       = Inr \<lparr>polygons = [scenario_polygon], metrics = [scenario_metrics]\<rparr>"
    using filter_candidates_cong[OF fpp p] scenario_run by simp
  from fpp x g r scenario_values show ?thesis by blast
qed

text \<open>The theorem for the C library that squares to the nearest float.\<close>

theorem rectangle_scenario_run_witness:
  "nearest_square (3602879701896397 / 2 ^ 55) = float_lit (10000000000000002 / 10 ^ 18)
   \<and> compute_geometry nearest_square scenario_polygon scenario_calibration
       = Inr (Fl (50 + 1 / 2 ^ 47), float_lit 30)
   \<and> filter_candidates nearest_square [scenario_polygon] scenario_calibration default_config
       = Inr \<lparr>polygons = [scenario_polygon], metrics = [scenario_metrics]\<rparr>"
proof -
  have h: "nearest_square (3602879701896397 / 2 ^ 55) = float_lit (10000000000000002 / 10 ^ 18)"
    by code_simp
  from rectangle_scenario_run[of nearest_square, OF h] h show ?thesis by blast
qed

text \<open>
  The run does not return the metrics the scenario states, with the area 50.0 and four
  vertices: the area it computes is not 50.0, and the ring of the rectangle has five
  coordinates.
\<close>

theorem rectangle_scenario_counterexample:
  "filter_candidates nearest_square [scenario_polygon] scenario_calibration default_config
     \<noteq> Inr \<lparr>polygons = [scenario_polygon], metrics = [stated_metrics]\<rparr>
   \<and> compute_geometry nearest_square scenario_polygon scenario_calibration
       \<noteq> Inr (float_lit 50, float_lit 30)
   \<and> int (length (exterior_coords scenario_polygon)) \<noteq> vertex_count stated_metrics"
  by code_simp

subsection \<open>The export\<close>

text \<open>
  C3, as the code has it. In a well-formed file system in which no file stands in the way
  of the parent directories and the target is not a directory, the export returns; the
  target then holds the rows of the writer and nothing else, whatever it held before;
  every directory above it exists; and no other path has changed. For the metrics of the
  scenario the file has two lines: the header and \<^verbatim>\<open>0,50.0,30.0,4,0.06,False\<close>. The
  writer applies \<^verbatim>\<open>str\<close> to each number and rounds nothing.
\<close>

theorem export_writes_rows:
  assumes wf: "well_formed fs" and un: "unobstructed fs (butlast path)"
      and target: "lookup fs path \<noteq> Some Dir"
  shows "(\<exists>fs'. export_to_csv [stated_metrics] path fs = Inr fs'
      \<and> file_lines fs' path
          = Some [''contour_index,area_sqft,perimeter_lf,vertex_count,sanity_score,flagged'',
                  ''0,50.0,30.0,4,0.06,False'']
      \<and> (\<forall>k<length path. lookup fs' (take k path) = Some Dir)
      \<and> (\<forall>q. (\<forall>k\<le>length path. q \<noteq> take k path) \<longrightarrow> lookup fs' q = lookup fs q))
   \<and> (\<forall>ms. \<exists>fs'. export_to_csv ms path fs = Inr fs'
      \<and> lookup fs' path = Some (File (concat (csv_rows ms)))
      \<and> length (csv_rows ms) = Suc (length ms)
      \<and> (\<forall>k<length path. lookup fs' (take k path) = Some Dir)
      \<and> (\<forall>q. (\<forall>k\<le>length path. q \<noteq> take k path) \<longrightarrow> lookup fs' q = lookup fs q))"
proof (intro conjI allI)
  from export_to_csv_writes[OF wf un target, of "[stated_metrics]"] obtain fs' where
    e: "export_to_csv [stated_metrics] path fs = Inr fs'"
       "lookup fs' path = Some (File (concat (csv_rows [stated_metrics])))"
       "\<forall>k<length path. lookup fs' (take k path) = Some Dir"
       "\<forall>q. (\<forall>k\<le>length path. q \<noteq> take k path) \<longrightarrow> lookup fs' q = lookup fs q"
    by blast
  from e(2) have "file_lines fs' path
          = Some [''contour_index,area_sqft,perimeter_lf,vertex_count,sanity_score,flagged'',
                  ''0,50.0,30.0,4,0.06,False'']"
    by (simp add: file_lines_def scenario_rows)
  with e show "\<exists>fs'. export_to_csv [stated_metrics] path fs = Inr fs'
      \<and> file_lines fs' path
          = Some [''contour_index,area_sqft,perimeter_lf,vertex_count,sanity_score,flagged'',
                  ''0,50.0,30.0,4,0.06,False'']
      \<and> (\<forall>k<length path. lookup fs' (take k path) = Some Dir)
      \<and> (\<forall>q. (\<forall>k\<le>length path. q \<noteq> take k path) \<longrightarrow> lookup fs' q = lookup fs q)"
    by blast
next
  fix ms
  from export_to_csv_writes[OF wf un target, of ms]
  show "\<exists>fs'. export_to_csv ms path fs = Inr fs'
      \<and> lookup fs' path = Some (File (concat (csv_rows ms)))
      \<and> length (csv_rows ms) = Suc (length ms)
      \<and> (\<forall>k<length path. lookup fs' (take k path) = Some Dir)
      \<and> (\<forall>q. (\<forall>k\<le>length path. q \<noteq> take k path) \<longrightarrow> lookup fs' q = lookup fs q)"
    by (simp add: csv_rows_def)
qed

text \<open>
  The theorem in a file system that holds the directory \<^verbatim>\<open>out\<close> and an old file
  \<^verbatim>\<open>out/metrics.csv\<close>: once for that file, which is overwritten, and once for a target
  two missing directories deep.
\<close>

theorem export_writes_rows_witness:
  "well_formed [[''out''] \<mapsto> Dir, [''out'', ''metrics.csv''] \<mapsto> File ''old'']
   \<and> (\<exists>fs'. export_to_csv [stated_metrics] [''out'', ''metrics.csv'']
               [[''out''] \<mapsto> Dir, [''out'', ''metrics.csv''] \<mapsto> File ''old''] = Inr fs'
        \<and> file_lines fs' [''out'', ''metrics.csv'']
            = Some [''contour_index,area_sqft,perimeter_lf,vertex_count,sanity_score,flagged'',
                    ''0,50.0,30.0,4,0.06,False''])
   \<and> (\<exists>fs'. export_to_csv [stated_metrics] [''new'', ''deep'', ''metrics.csv'']
               [[''out''] \<mapsto> Dir, [''out'', ''metrics.csv''] \<mapsto> File ''old''] = Inr fs'
        \<and> lookup fs' [''new''] = Some Dir \<and> lookup fs' [''new'', ''deep''] = Some Dir
        \<and> lookup fs' [''out'', ''metrics.csv''] = Some (File ''old''))"
proof -
  let ?fs = "[[''out''] \<mapsto> Dir, [''out'', ''metrics.csv''] \<mapsto> File ''old'']"
  have wf: "well_formed ?fs"
    by (auto simp: well_formed_def lookup_def)
  have un1: "unobstructed ?fs (butlast [''out'', ''metrics.csv''])"
    by (auto simp: unobstructed_def lookup_def take_Cons split: nat.splits)
  have t1: "lookup ?fs [''out'', ''metrics.csv''] \<noteq> Some Dir"
    by (simp add: lookup_def)
  have un2: "unobstructed ?fs (butlast [''new'', ''deep'', ''metrics.csv''])"
    by (auto simp: unobstructed_def lookup_def take_Cons split: nat.splits)
  have t2: "lookup ?fs [''new'', ''deep'', ''metrics.csv''] \<noteq> Some Dir"
    by (simp add: lookup_def)
  from export_writes_rows[OF wf un1 t1, THEN conjunct1]
  have a: "\<exists>fs'. export_to_csv [stated_metrics] [''out'', ''metrics.csv''] ?fs = Inr fs'
        \<and> file_lines fs' [''out'', ''metrics.csv'']
            = Some [''contour_index,area_sqft,perimeter_lf,vertex_count,sanity_score,flagged'',
                    ''0,50.0,30.0,4,0.06,False'']"
    by blast
  from export_writes_rows[OF wf un2 t2, THEN conjunct1] obtain fs' where
    e: "export_to_csv [stated_metrics] [''new'', ''deep'', ''metrics.csv''] ?fs = Inr fs'"
       "\<forall>k<length [''new'', ''deep'', ''metrics.csv''].
          lookup fs' (take k [''new'', ''deep'', ''metrics.csv'']) = Some Dir"
       "\<forall>q. (\<forall>k\<le>length [''new'', ''deep'', ''metrics.csv''].
               q \<noteq> take k [''new'', ''deep'', ''metrics.csv'']) \<longrightarrow> lookup fs' q = lookup ?fs q"
    by blast
  from e(2)[rule_format, of 1] have d1: "lookup fs' [''new''] = Some Dir" by simp
  from e(2)[rule_format, of 2] have d2: "lookup fs' [''new'', ''deep''] = Some Dir"
    by (simp add: numeral_2_eq_2)
  have "\<forall>k\<le>length [''new'', ''deep'', ''metrics.csv''].
          [''out'', ''metrics.csv''] \<noteq> take k [''new'', ''deep'', ''metrics.csv'']"
    by (auto simp: take_Cons split: nat.splits)
  with e(3) have "lookup fs' [''out'', ''metrics.csv''] = lookup ?fs [''out'', ''metrics.csv'']"
    by blast
  then have d3: "lookup fs' [''out'', ''metrics.csv''] = Some (File ''old'')"
    by (simp add: lookup_def)
  from wf a e(1) d1 d2 d3 show ?thesis by blast
qed

text \<open>
  The second line of the file is not the one the claim states, with two decimals: neither
  in the text the writer produces nor in the file it leaves in an empty file system.
\<close>

theorem export_rounding_counterexample:
  "split_lines [] (concat (csv_rows [stated_metrics])) ! 1 \<noteq> ''0,50.00,30.00,4,0.06,False''
   \<and> (case export_to_csv [stated_metrics] [''out'', ''metrics.csv''] Map.empty of
         Inl e \<Rightarrow> None
       | Inr fs \<Rightarrow> file_lines fs [''out'', ''metrics.csv''])
      = Some [''contour_index,area_sqft,perimeter_lf,vertex_count,sanity_score,flagged'',
              ''0,50.0,30.0,4,0.06,False'']"
  by code_simp

subsection \<open>The candidate filter\<close>

text \<open>
  C4. The sanity score of a polygon is positive infinity when its area is zero and the
  float quotient of its length by its area otherwise, and computing it never raises. In a
  result of the filter, each record of metrics holds the sanity score of its polygon, and
  its flag is true exactly when that score is greater than the threshold of the
  configuration. The flag excludes nothing: under any other threshold the filter returns
  as well, with the same polygons and the same indices, areas and scores.
\<close>

theorem sanity_score_advisory:
  assumes run: "filter_candidates pow2 ps c cfg = Inr r"
  shows "(\<forall>p. (py_eq (area p) (Fl 0) \<longrightarrow> sanity_score p = Inr PosInf)
            \<and> (\<not> py_eq (area p) (Fl 0) \<longrightarrow>
                  sanity_score p = py_truediv (length_of p) (area p))
            \<and> (\<exists>v. sanity_score p = Inr v))
     \<and> (\<forall>k<length (metrics r).
           sanity_score (polygons r ! k) = Inr (sanity_score_of (metrics r ! k))
         \<and> flagged (metrics r ! k)
             = py_gt (sanity_score_of (metrics r ! k)) (sanity_ratio_threshold cfg))
     \<and> (\<forall>t. \<exists>r'. filter_candidates pow2 ps c (cfg\<lparr>sanity_ratio_threshold := t\<rparr>) = Inr r'
           \<and> polygons r' = polygons r
           \<and> map contour_index (metrics r') = map contour_index (metrics r)
           \<and> map area_sqft (metrics r') = map area_sqft (metrics r)
           \<and> map sanity_score_of (metrics r') = map sanity_score_of (metrics r))"
proof (intro conjI allI impI)
  fix p
  show "py_eq (area p) (Fl 0) \<Longrightarrow> sanity_score p = Inr PosInf"
    by (simp add: sanity_score_def)
  show "\<not> py_eq (area p) (Fl 0) \<Longrightarrow> sanity_score p = py_truediv (length_of p) (area p)"
    by (simp add: sanity_score_def)
  show "\<exists>v. sanity_score p = Inr v"
    using sanity_score_total by blast
next
  fix k assume k: "k < length (metrics r)"
  from metrics_nth[OF run k] obtain j where j:
    "polygons r ! k = ps ! j" "metrics r ! k = metric_for pow2 c cfg (j, ps ! j)" by blast
  then show "sanity_score (polygons r ! k) = Inr (sanity_score_of (metrics r ! k))"
    by (simp add: metric_for_def sanity_score_total)
  from j show "flagged (metrics r ! k)
             = py_gt (sanity_score_of (metrics r ! k)) (sanity_ratio_threshold cfg)"
    by (simp add: metric_for_def)
next
  fix t
  let ?cfg = "cfg\<lparr>sanity_ratio_threshold := t\<rparr>"
  from returns_any_config[OF run] obtain r' where run': "filter_candidates pow2 ps c ?cfg = Inr r'"
    by blast
  let ?sel = "selected pow2 c cfg 0 ps"
  have r: "r = \<lparr>polygons = map snd ?sel, metrics = map (metric_for pow2 c cfg) ?sel\<rparr>"
    by (rule filter_candidates_spec[OF run])
  have r': "r' = \<lparr>polygons = map snd ?sel, metrics = map (metric_for pow2 c ?cfg) ?sel\<rparr>"
    using filter_candidates_spec[OF run'] by (simp add: selected_threshold)
  have "polygons r' = polygons r
           \<and> map contour_index (metrics r') = map contour_index (metrics r)
           \<and> map area_sqft (metrics r') = map area_sqft (metrics r)
           \<and> map sanity_score_of (metrics r') = map sanity_score_of (metrics r)"
    by (subst r, subst r')+ (simp add: metric_for_def)
  with run' show "\<exists>r'. filter_candidates pow2 ps c ?cfg = Inr r'
           \<and> polygons r' = polygons r
           \<and> map contour_index (metrics r') = map contour_index (metrics r)
           \<and> map area_sqft (metrics r') = map area_sqft (metrics r)
           \<and> map sanity_score_of (metrics r') = map sanity_score_of (metrics r)"
    by blast
qed

text \<open>
  The theorem at the polygon of zero area, accepted under a minimum area of zero: its score
  is infinite and it is flagged; under an infinite threshold it is accepted all the same.
\<close>

theorem sanity_score_advisory_witness:
  "filter_candidates nearest_square [line_polygon] scenario_calibration zero_area_config = Inr line_result
   \<and> sanity_score (polygons line_result ! 0) = Inr PosInf
   \<and> flagged (metrics line_result ! 0)
   \<and> py_gt (sanity_score_of (metrics line_result ! 0)) (sanity_ratio_threshold zero_area_config)
   \<and> (\<exists>r'. filter_candidates nearest_square [line_polygon] scenario_calibration
              (zero_area_config\<lparr>sanity_ratio_threshold := PosInf\<rparr>) = Inr r'
         \<and> polygons r' = [line_polygon])"
proof -
  note t = sanity_score_advisory[OF line_run]
  have k: "0 < length (metrics line_result)" by (simp add: line_result_def)
  from t[THEN conjunct2, THEN conjunct1, rule_format, OF k]
  have a: "sanity_score (polygons line_result ! 0) = Inr (sanity_score_of (metrics line_result ! 0))"
    and b: "flagged (metrics line_result ! 0)
      = py_gt (sanity_score_of (metrics line_result ! 0)) (sanity_ratio_threshold zero_area_config)"
    by blast+
  have f: "flagged (metrics line_result ! 0)" by (simp add: line_result_def)
  from a have a': "sanity_score (polygons line_result ! 0) = Inr PosInf"
    by (simp add: line_result_def)
  from t[THEN conjunct2, THEN conjunct2, rule_format, of PosInf] obtain r' where
    "filter_candidates nearest_square [line_polygon] scenario_calibration
       (zero_area_config\<lparr>sanity_ratio_threshold := PosInf\<rparr>) = Inr r'"
    "polygons r' = polygons line_result" by blast
  then have c: "\<exists>r'. filter_candidates nearest_square [line_polygon] scenario_calibration
              (zero_area_config\<lparr>sanity_ratio_threshold := PosInf\<rparr>) = Inr r'
         \<and> polygons r' = [line_polygon]"
    by (simp add: line_result_def)
  from line_run a' f b c show ?thesis by simp
qed

text \<open>
  C5. For a calibration whose scale and its square are computed without error, the filter
  returns, and for every polygon of the input that is not empty: an area in square feet
  below the minimum excludes it, whatever its vertex count; a vertex count above the
  maximum excludes it, whatever its area; and when neither holds it is accepted, with a
  record of metrics carrying its position. Excluded means that no record carries its
  position and that it is not among the accepted polygons.
\<close>

theorem hard_filters_independent:
  assumes fpp: "feet_per_pixel c = Inr f" and sq: "py_pow2 pow2 f = Inr sq"
  shows "\<exists>r. filter_candidates pow2 ps c cfg = Inr r \<and>
     (\<forall>j<length ps. \<not> is_empty (ps ! j) \<longrightarrow>
        compute_geometry pow2 (ps ! j) c = Inr (py_mul (area (ps ! j)) sq, py_mul (length_of (ps ! j)) f)
      \<and> (py_lt (py_mul (area (ps ! j)) sq) (min_area_sqft cfg) \<longrightarrow>
            int j \<notin> contour_index ` set (metrics r) \<and> ps ! j \<notin> set (polygons r))
      \<and> (max_vertex_count cfg < int (length (exterior_coords (ps ! j))) \<longrightarrow>
            int j \<notin> contour_index ` set (metrics r) \<and> ps ! j \<notin> set (polygons r))
      \<and> (\<not> py_lt (py_mul (area (ps ! j)) sq) (min_area_sqft cfg)
           \<and> \<not> max_vertex_count cfg < int (length (exterior_coords (ps ! j))) \<longrightarrow>
            (\<exists>k<length (metrics r). contour_index (metrics r ! k) = int j
                \<and> polygons r ! k = ps ! j)))"
proof -
  from filter_candidates_returns[OF fpp sq] obtain r where run: "filter_candidates pow2 ps c cfg = Inr r"
    by blast
  let ?sel = "selected pow2 c cfg 0 ps"
  have r: "r = \<lparr>polygons = map snd ?sel, metrics = map (metric_for pow2 c cfg) ?sel\<rparr>"
    by (rule filter_candidates_spec[OF run])
  have member: "p \<in> set (polygons r) \<Longrightarrow> accepted_by pow2 c cfg p" for p
  proof -
    assume "p \<in> set (polygons r)"
    then have "p \<in> snd ` set ?sel" by (subst (asm) r) simp
    then obtain j where "(j, p) \<in> set ?sel" by force
    from selected_sound[OF this] show ?thesis by blast
  qed
  have "\<forall>j<length ps. \<not> is_empty (ps ! j) \<longrightarrow>
        compute_geometry pow2 (ps ! j) c = Inr (py_mul (area (ps ! j)) sq, py_mul (length_of (ps ! j)) f)
      \<and> (py_lt (py_mul (area (ps ! j)) sq) (min_area_sqft cfg) \<longrightarrow>
            int j \<notin> contour_index ` set (metrics r) \<and> ps ! j \<notin> set (polygons r))
      \<and> (max_vertex_count cfg < int (length (exterior_coords (ps ! j))) \<longrightarrow>
            int j \<notin> contour_index ` set (metrics r) \<and> ps ! j \<notin> set (polygons r))
      \<and> (\<not> py_lt (py_mul (area (ps ! j)) sq) (min_area_sqft cfg)
           \<and> \<not> max_vertex_count cfg < int (length (exterior_coords (ps ! j))) \<longrightarrow>
            (\<exists>k<length (metrics r). contour_index (metrics r ! k) = int j
                \<and> polygons r ! k = ps ! j))"
  proof (intro allI impI)
    fix j assume j: "j < length ps" and ne: "\<not> is_empty (ps ! j)"
    let ?p = "ps ! j"
    have g: "compute_geometry pow2 ?p c = Inr (py_mul (area ?p) sq, py_mul (length_of ?p) f)"
      by (rule compute_geometry_scale[OF fpp sq])
    then have gv: "fst (geometry_value pow2 c ?p) = py_mul (area ?p) sq"
      by (simp add: geometry_value_def)
    have acc: "accepted_by pow2 c cfg ?p =
        (\<not> py_lt (py_mul (area ?p) sq) (min_area_sqft cfg)
         \<and> \<not> max_vertex_count cfg < int (length (exterior_coords ?p)))"
      using ne gv by (simp add: accepted_by_def vertices_of_def)
    have idx: "(int j \<in> contour_index ` set (metrics r)) = accepted_by pow2 c cfg ?p"
      by (rule metrics_index_iff[OF run j])
    have pos: "\<exists>k<length (metrics r). contour_index (metrics r ! k) = int j \<and> polygons r ! k = ?p"
      if "accepted_by pow2 c cfg ?p"
    proof -
      from that idx obtain m where "m \<in> set (metrics r)" "contour_index m = int j" by auto
      then obtain k where k: "k < length (metrics r)" "metrics r ! k = m"
        by (auto simp: in_set_conv_nth)
      from metrics_nth[OF run k(1)] obtain j' where j': "j' < length ps"
        "polygons r ! k = ps ! j'" "metrics r ! k = metric_for pow2 c cfg (j', ps ! j')" by blast
      have "contour_index (metrics r ! k) = int j'" using j'(3) by (simp add: metric_for_def)
      with k \<open>contour_index m = int j\<close> have "j' = j" by simp
      with j' k \<open>contour_index m = int j\<close> show ?thesis by auto
    qed
    show "compute_geometry pow2 ?p c = Inr (py_mul (area ?p) sq, py_mul (length_of ?p) f)
      \<and> (py_lt (py_mul (area ?p) sq) (min_area_sqft cfg) \<longrightarrow>
            int j \<notin> contour_index ` set (metrics r) \<and> ?p \<notin> set (polygons r))
      \<and> (max_vertex_count cfg < int (length (exterior_coords ?p)) \<longrightarrow>
            int j \<notin> contour_index ` set (metrics r) \<and> ?p \<notin> set (polygons r))
      \<and> (\<not> py_lt (py_mul (area ?p) sq) (min_area_sqft cfg)
           \<and> \<not> max_vertex_count cfg < int (length (exterior_coords ?p)) \<longrightarrow>
            (\<exists>k<length (metrics r). contour_index (metrics r ! k) = int j
                \<and> polygons r ! k = ?p))"
      using g acc idx pos member[of ?p] by blast
  qed
  with run show ?thesis by blast
qed

text \<open>
  The theorem at the five polygons of the example and a maximum of five ring coordinates:
  the polygon of zero area is excluded by its area, the L-shaped one by the seven
  coordinates of its ring though its area passes the check, and the last polygon is
  accepted.
\<close>

theorem hard_filters_independent_witness:
  "feet_per_pixel scenario_calibration = Inr (float_lit (1 / 10))
   \<and> py_pow2 nearest_square (float_lit (1 / 10)) = Inr (Fl (1441151880758559 / 2 ^ 57))
   \<and> filter_candidates nearest_square mixed_polygons scenario_calibration strict_config = Inr mixed_result
   \<and> py_lt (py_mul (area (mixed_polygons ! 2)) (Fl (1441151880758559 / 2 ^ 57)))
        (min_area_sqft strict_config)
   \<and> int 2 \<notin> contour_index ` set (metrics mixed_result)
   \<and> max_vertex_count strict_config < int (length (exterior_coords (mixed_polygons ! 3)))
   \<and> int 3 \<notin> contour_index ` set (metrics mixed_result)
   \<and> \<not> py_lt (py_mul (area (mixed_polygons ! 3)) (Fl (1441151880758559 / 2 ^ 57)))
          (min_area_sqft strict_config)
   \<and> (\<exists>k<length (metrics mixed_result).
         contour_index (metrics mixed_result ! k) = int 4
         \<and> polygons mixed_result ! k = mixed_polygons ! 4)"
proof -
  let ?sq = "Fl (1441151880758559 / 2 ^ 57)"
  note fpp = scenario_scale[THEN conjunct1] and sq = scenario_scale[THEN conjunct2]
  from hard_filters_independent[OF fpp sq, of mixed_polygons strict_config] mixed_run
  have t: "\<forall>j<length mixed_polygons. \<not> is_empty (mixed_polygons ! j) \<longrightarrow>
        compute_geometry nearest_square (mixed_polygons ! j) scenario_calibration
          = Inr (py_mul (area (mixed_polygons ! j)) ?sq,
                 py_mul (length_of (mixed_polygons ! j)) (float_lit (1 / 10)))
      \<and> (py_lt (py_mul (area (mixed_polygons ! j)) ?sq) (min_area_sqft strict_config) \<longrightarrow>
            int j \<notin> contour_index ` set (metrics mixed_result)
            \<and> mixed_polygons ! j \<notin> set (polygons mixed_result))
      \<and> (max_vertex_count strict_config < int (length (exterior_coords (mixed_polygons ! j))) \<longrightarrow>
            int j \<notin> contour_index ` set (metrics mixed_result)
            \<and> mixed_polygons ! j \<notin> set (polygons mixed_result))
      \<and> (\<not> py_lt (py_mul (area (mixed_polygons ! j)) ?sq) (min_area_sqft strict_config)
           \<and> \<not> max_vertex_count strict_config < int (length (exterior_coords (mixed_polygons ! j))) \<longrightarrow>
            (\<exists>k<length (metrics mixed_result).
                contour_index (metrics mixed_result ! k) = int j
                \<and> polygons mixed_result ! k = mixed_polygons ! j))"
    by auto
  have len: "2 < length mixed_polygons" "3 < length mixed_polygons" "4 < length mixed_polygons"
    by (simp_all add: mixed_polygons_def)
  have ne: "\<not> is_empty (mixed_polygons ! 2)" "\<not> is_empty (mixed_polygons ! 3)"
    "\<not> is_empty (mixed_polygons ! 4)"
    by code_simp+
  have small: "py_lt (py_mul (area (mixed_polygons ! 2)) ?sq) (min_area_sqft strict_config)"
    by code_simp
  have many: "max_vertex_count strict_config < int (length (exterior_coords (mixed_polygons ! 3)))"
    by code_simp
  have same: "\<not> py_lt (py_mul (area (mixed_polygons ! 3)) ?sq) (min_area_sqft strict_config)"
    by code_simp
  have pass: "\<not> py_lt (py_mul (area (mixed_polygons ! 4)) ?sq) (min_area_sqft strict_config)"
    "\<not> max_vertex_count strict_config < int (length (exterior_coords (mixed_polygons ! 4)))"
    by code_simp+
  from t[rule_format, OF len(1) ne(1)] small
  have a: "int 2 \<notin> contour_index ` set (metrics mixed_result)" by blast
  from t[rule_format, OF len(2) ne(2)] many
  have b: "int 3 \<notin> contour_index ` set (metrics mixed_result)" by blast
  from t[rule_format, OF len(3) ne(3)] pass
  have c: "\<exists>k<length (metrics mixed_result).
         contour_index (metrics mixed_result ! k) = int 4
         \<and> polygons mixed_result ! k = mixed_polygons ! 4" by blast
  from fpp sq mixed_run small a many b same c show ?thesis by blast
qed

text \<open>
  C6. In every result of the filter the accepted polygons and the metrics have the same
  length; the record at each position carries the position that its polygon has in the
  input and describes the polygon at the same position of the accepted sequence (its
  geometry, its vertex count and its score); the positions carried increase strictly along
  the metrics, so both sequences are in the order of the input; and the same input gives
  the same result.
\<close>

theorem filter_sequences_aligned:
  assumes run: "filter_candidates pow2 ps c cfg = Inr r"
  shows "length (polygons r) = length (metrics r)
     \<and> (\<forall>k<length (metrics r). \<exists>j<length ps.
           contour_index (metrics r ! k) = int j \<and> polygons r ! k = ps ! j
         \<and> compute_geometry pow2 (polygons r ! k) c
             = Inr (area_sqft (metrics r ! k), perimeter_lf (metrics r ! k))
         \<and> vertex_count (metrics r ! k) = int (length (exterior_coords (polygons r ! k)))
         \<and> sanity_score (polygons r ! k) = Inr (sanity_score_of (metrics r ! k)))
     \<and> sorted_wrt (<) (map contour_index (metrics r))
     \<and> (\<forall>r'. filter_candidates pow2 ps c cfg = Inr r' \<longrightarrow> r' = r)"
proof (intro conjI allI impI)
  let ?sel = "selected pow2 c cfg 0 ps"
  have r: "r = \<lparr>polygons = map snd ?sel, metrics = map (metric_for pow2 c cfg) ?sel\<rparr>"
    by (rule filter_candidates_spec[OF run])
  show "length (polygons r) = length (metrics r)" by (subst r, subst r) simp
  have "sorted_wrt (\<lambda>x y. fst x < fst y) ?sel"
    using selected_sorted[of pow2 c cfg 0 ps] by (simp only: sorted_wrt_map)
  then have "sorted_wrt (<) (map contour_index (map (metric_for pow2 c cfg) ?sel))"
    by (simp add: sorted_wrt_map metric_for_def)
  then show "sorted_wrt (<) (map contour_index (metrics r))" by (subst r) simp
next
  fix r' assume "filter_candidates pow2 ps c cfg = Inr r'"
  with run show "r' = r" by simp
next
  fix k assume k: "k < length (metrics r)"
  from metrics_nth[OF run k] obtain j where j: "j < length ps" "\<not> is_empty (ps ! j)"
    "polygons r ! k = ps ! j" "metrics r ! k = metric_for pow2 c cfg (j, ps ! j)" by blast
  have "ps ! j \<in> set ps" using j(1) by simp
  from run_geometry[OF run this j(2)]
  have g: "compute_geometry pow2 (ps ! j) c = Inr (geometry_value pow2 c (ps ! j))" .
  show "\<exists>j<length ps.
           contour_index (metrics r ! k) = int j \<and> polygons r ! k = ps ! j
         \<and> compute_geometry pow2 (polygons r ! k) c
             = Inr (area_sqft (metrics r ! k), perimeter_lf (metrics r ! k))
         \<and> vertex_count (metrics r ! k) = int (length (exterior_coords (polygons r ! k)))
         \<and> sanity_score (polygons r ! k) = Inr (sanity_score_of (metrics r ! k))"
    using j g by (intro exI[of _ j]) (simp add: metric_for_def vertices_of_def sanity_score_total)
qed

text \<open>The theorem at the five polygons of the example, of which the second and the fifth are kept.\<close>

theorem filter_sequences_aligned_witness:
  "filter_candidates nearest_square mixed_polygons scenario_calibration strict_config = Inr mixed_result
   \<and> length (polygons mixed_result) = length (metrics mixed_result)
   \<and> sorted_wrt (<) (map contour_index (metrics mixed_result))
   \<and> map contour_index (metrics mixed_result) = [1, 4]
   \<and> polygons mixed_result = [mixed_polygons ! 1, mixed_polygons ! 4]"
proof -
  note t = filter_sequences_aligned[OF mixed_run]
  have a: "length (polygons mixed_result) = length (metrics mixed_result)"
    by (rule t[THEN conjunct1])
  have b: "sorted_wrt (<) (map contour_index (metrics mixed_result))"
    by (rule t[THEN conjunct2, THEN conjunct2, THEN conjunct1])
  have c: "map contour_index (metrics mixed_result) = [1, 4]
      \<and> polygons mixed_result = [mixed_polygons ! 1, mixed_polygons ! 4]"
    by code_simp
  from mixed_run a b c show ?thesis by blast
qed

text \<open>
  C7. In every result of the filter no accepted polygon is empty, no record of metrics
  carries the position of an empty polygon of the input, and there are at most as many
  records as polygons that are not empty.
\<close>

theorem empty_polygons_skipped:
  assumes run: "filter_candidates pow2 ps c cfg = Inr r"
  shows "(\<forall>p\<in>set (polygons r). \<not> is_empty p)
     \<and> (\<forall>j<length ps. is_empty (ps ! j) \<longrightarrow> int j \<notin> contour_index ` set (metrics r))
     \<and> length (metrics r) \<le> length (filter (\<lambda>p. \<not> is_empty p) ps)"
proof (intro conjI ballI allI impI)
  let ?sel = "selected pow2 c cfg 0 ps"
  have r: "r = \<lparr>polygons = map snd ?sel, metrics = map (metric_for pow2 c cfg) ?sel\<rparr>"
    by (rule filter_candidates_spec[OF run])
  {
    fix p assume "p \<in> set (polygons r)"
    then have "p \<in> snd ` set ?sel" by (subst (asm) r) simp
    then obtain j where "(j, p) \<in> set ?sel" by force
    from selected_sound[OF this] have "accepted_by pow2 c cfg p" by blast
    then show "\<not> is_empty p" by (simp add: accepted_by_def)
  }
  {
    fix j assume "j < length ps" and "is_empty (ps ! j)"
    then show "int j \<notin> contour_index ` set (metrics r)"
      using metrics_index_iff[OF run, of j] by (simp add: accepted_by_def)
  }
  have "length ?sel \<le> length (filter (\<lambda>p. \<not> is_empty p) ps)"
    unfolding selected_def by (rule length_filter_zip_le) (simp add: accepted_by_def)
  then show "length (metrics r) \<le> length (filter (\<lambda>p. \<not> is_empty p) ps)"
    by (subst r) simp
qed

text \<open>The theorem at the five polygons of the example, the first of which is empty.\<close>

theorem empty_polygons_skipped_witness:
  "filter_candidates nearest_square mixed_polygons scenario_calibration strict_config = Inr mixed_result
   \<and> is_empty (mixed_polygons ! 0)
   \<and> int 0 \<notin> contour_index ` set (metrics mixed_result)
   \<and> \<not> is_empty (polygons mixed_result ! 0)"
proof -
  note t = empty_polygons_skipped[OF mixed_run]
  have e: "is_empty (mixed_polygons ! 0)" by code_simp
  have l: "0 < length mixed_polygons" by (simp add: mixed_polygons_def)
  from t[THEN conjunct2, THEN conjunct1, rule_format, OF l e]
  have a: "int 0 \<notin> contour_index ` set (metrics mixed_result)" .
  have "polygons mixed_result ! 0 \<in> set (polygons mixed_result)"
    by (simp add: mixed_result_def)
  with t[THEN conjunct1] have b: "\<not> is_empty (polygons mixed_result ! 0)" by blast
  from mixed_run e a b show ?thesis by blast
qed

subsection \<open>Geometry\<close>

text \<open>
  C8, as the code has it. For a calibration whose scale \<open>f\<close> and its square are computed
  without error, the geometry of every polygon is the pair of float products: the area in
  square feet is the area in pixels times \<^verbatim>\<open>f ** 2\<close>, the perimeter in feet is the
  length in pixels times \<open>f\<close>. The calibration enters through \<open>f\<close> alone. For finite
  numbers in the normal range the two results are the exact products rounded to a float;
  when the C library's square of \<open>f\<close> is within a relative error \<open>d\<close> of the exact
  square, the area in square feet differs from the exact area times the exact square of
  \<open>f\<close> by a relative error of at most \<open>d + (1 + d) / 2 ^ 53\<close>, and the perimeter from
  the exact length times \<open>f\<close> by one of at most \<open>1 / 2 ^ 53\<close>: up to that rounding the
  area scales with the square of \<open>f\<close> and the perimeter with \<open>f\<close>. A polygon of zero
  area has an area in square feet equal to zero whenever \<open>f\<close> is finite.
\<close>

theorem geometry_conversion:
  assumes fpp: "feet_per_pixel c = Inr f" and sq: "py_pow2 pow2 f = Inr sq"
  shows "compute_geometry pow2 p c = Inr (py_mul (area p) sq, py_mul (length_of p) f)
     \<and> (\<forall>c'. feet_per_pixel c' = Inr f \<longrightarrow> compute_geometry pow2 p c' = compute_geometry pow2 p c)
     \<and> (\<forall>x s A L d. f = Fl x \<and> sq = Fl s \<and> area p = Fl A \<and> length_of p = Fl L
           \<and> normal_range (A * s) \<and> normal_range (L * x) \<and> \<bar>s - x * x\<bar> \<le> \<bar>x * x\<bar> * d \<longrightarrow>
          compute_geometry pow2 p c = Inr (round_double (A * s), round_double (L * x))
          \<and> (\<forall>a. round_double (A * s) = Fl a \<longrightarrow>
                \<bar>a - A * (x * x)\<bar> \<le> \<bar>A * (x * x)\<bar> * (d + (1 + d) / 2 ^ 53))
          \<and> (\<forall>l. round_double (L * x) = Fl l \<longrightarrow> \<bar>l - L * x\<bar> \<le> \<bar>L * x\<bar> / 2 ^ 53))
     \<and> (\<forall>x. finite_value f = Some x \<and> py_eq (area p) (Fl 0) \<longrightarrow>
          (\<exists>a. compute_geometry pow2 p c = Inr (a, py_mul (length_of p) f) \<and> py_eq a (Fl 0)))"
proof (intro conjI allI impI)
  show g: "compute_geometry pow2 p c = Inr (py_mul (area p) sq, py_mul (length_of p) f)"
    by (rule compute_geometry_scale[OF fpp sq])
  {
    fix c' assume "feet_per_pixel c' = Inr f"
    from compute_geometry_scale[OF this sq] g
    show "compute_geometry pow2 p c' = compute_geometry pow2 p c" by simp
  }
  {
    fix x s A L d
    assume h: "f = Fl x \<and> sq = Fl s \<and> area p = Fl A \<and> length_of p = Fl L
           \<and> normal_range (A * s) \<and> normal_range (L * x) \<and> \<bar>s - x * x\<bar> \<le> \<bar>x * x\<bar> * d"
    then have nz: "A * s \<noteq> 0" "L * x \<noteq> 0" by (simp_all add: normal_range_def)
    from h have na: "normal_range (A * s)" and nl: "normal_range (L * x)"
      and es: "\<bar>s - x * x\<bar> \<le> \<bar>x * x\<bar> * d" by blast+
    from g h show "compute_geometry pow2 p c = Inr (round_double (A * s), round_double (L * x))"
      by (simp add: py_mul_finite[OF nz(1)] py_mul_finite[OF nz(2)])
    {
      fix a assume "round_double (A * s) = Fl a"
      from geometry_error_bounds[OF es this na]
      show "\<bar>a - A * (x * x)\<bar> \<le> \<bar>A * (x * x)\<bar> * (d + (1 + d) / 2 ^ 53)" .
    }
    {
      fix l assume "round_double (L * x) = Fl l"
      from round_double_relative[OF this nl]
      show "\<bar>l - L * x\<bar> \<le> \<bar>L * x\<bar> / 2 ^ 53" .
    }
  }
  {
    fix x assume h: "finite_value f = Some x \<and> py_eq (area p) (Fl 0)"
    with sq py_pow2_finite obtain s where "finite_value sq = Some s" by blast
    with h have "py_eq (py_mul (area p) sq) (Fl 0)" by (simp add: py_mul_zero)
    with g show "\<exists>a. compute_geometry pow2 p c = Inr (a, py_mul (length_of p) f) \<and> py_eq a (Fl 0)"
      by blast
  }
qed

text \<open>
  The theorem at the calibration of the scenario and the C library that squares to the
  nearest float, for the rectangle and for the polygon of zero area. Under twice the scale
  the area of the rectangle is four times as large and its perimeter twice.
\<close>

theorem geometry_conversion_witness:
  "feet_per_pixel scenario_calibration = Inr (float_lit (1 / 10))
   \<and> py_pow2 nearest_square (float_lit (1 / 10)) = Inr (Fl (1441151880758559 / 2 ^ 57))
   \<and> compute_geometry nearest_square scenario_polygon scenario_calibration
       = Inr (py_mul (area scenario_polygon) (Fl (1441151880758559 / 2 ^ 57)),
              py_mul (length_of scenario_polygon) (float_lit (1 / 10)))
   \<and> compute_geometry nearest_square scenario_polygon scenario_calibration
       = Inr (Fl (50 + 1 / 2 ^ 47), Fl 30)
   \<and> (\<exists>a. compute_geometry nearest_square line_polygon scenario_calibration
             = Inr (a, py_mul (length_of line_polygon) (float_lit (1 / 10)))
         \<and> py_eq a (Fl 0))
   \<and> \<bar>(50 + 1 / 2 ^ 47)
        - 5000 * (3602879701896397 / 2 ^ 55 * (3602879701896397 / 2 ^ 55))\<bar>
       \<le> \<bar>5000 * (3602879701896397 / 2 ^ 55 * (3602879701896397 / 2 ^ 55))\<bar>
            * (1 / 2 ^ 53 + (1 + 1 / 2 ^ 53) / 2 ^ 53 :: rat)
   \<and> compute_geometry nearest_square scenario_polygon
        \<lparr>pixel_distance = Fl 100, real_distance_feet = Fl 20\<rparr>
       = Inr (Fl (4 * (50 + 1 / 2 ^ 47)), Fl (2 * 30))"
proof -
  let ?x = "3602879701896397 / 2 ^ 55 :: rat"
  let ?s = "1441151880758559 / 2 ^ 57 :: rat"
  note fpp = scenario_scale[THEN conjunct1] and sq = scenario_scale[THEN conjunct2]
  note t = geometry_conversion[OF fpp sq]
  from t[of scenario_polygon, THEN conjunct1]
  have a: "compute_geometry nearest_square scenario_polygon scenario_calibration
       = Inr (py_mul (area scenario_polygon) (Fl ?s),
              py_mul (length_of scenario_polygon) (float_lit (1 / 10)))" .
  have fin: "finite_value (float_lit (1 / 10)) = Some ?x \<and> py_eq (area line_polygon) (Fl 0)"
    by code_simp
  from t[of line_polygon, THEN conjunct2, THEN conjunct2, THEN conjunct2, rule_format, OF fin]
  have b: "\<exists>a. compute_geometry nearest_square line_polygon scenario_calibration
             = Inr (a, py_mul (length_of line_polygon) (float_lit (1 / 10)))
         \<and> py_eq a (Fl 0)" .
  have h: "float_lit (1 / 10) = Fl ?x \<and> Fl ?s = Fl ?s \<and> area scenario_polygon = Fl 5000
      \<and> length_of scenario_polygon = Fl 300
      \<and> normal_range (5000 * ?s) \<and> normal_range (300 * ?x)
      \<and> \<bar>?s - ?x * ?x\<bar> \<le> \<bar>?x * ?x\<bar> * (1 / 2 ^ 53)"
    using scenario_numbers by blast
  note u = t[of scenario_polygon, THEN conjunct2, THEN conjunct2, THEN conjunct1, rule_format, OF h]
  have ra: "round_double (5000 * ?s) = Fl (50 + 1 / 2 ^ 47)"
    and rl: "round_double (300 * ?x) = Fl 30"
    using scenario_numbers by blast+
  from u[THEN conjunct1] have c: "compute_geometry nearest_square scenario_polygon scenario_calibration
       = Inr (Fl (50 + 1 / 2 ^ 47), Fl 30)"
    by (simp only: ra rl)
  from u[THEN conjunct2, THEN conjunct1, rule_format, OF ra]
  have d: "\<bar>(50 + 1 / 2 ^ 47) - 5000 * (?x * ?x)\<bar>
       \<le> \<bar>5000 * (?x * ?x)\<bar> * (1 / 2 ^ 53 + (1 + 1 / 2 ^ 53) / 2 ^ 53 :: rat)" .
  from fpp sq a c b d doubled_scale show ?thesis by blast
qed

text \<open>
  The claim as stated fails for a polygon of zero area when the scale is not finite. The
  calibration of the least positive float to one foot has two distances above zero; its
  scale is infinite, and the polygon of zero area gets an area in square feet that is not
  a number, and is accepted with it under the default configuration.
\<close>

theorem zero_area_counterexample:
  "py_gt (pixel_distance tiny_calibration) (Fl 0)
   \<and> py_gt (real_distance_feet tiny_calibration) (Fl 0)
   \<and> feet_per_pixel tiny_calibration = Inr PosInf
   \<and> area line_polygon = Fl 0
   \<and> compute_geometry nearest_square line_polygon tiny_calibration = Inr (NaN, PosInf)
   \<and> \<not> py_eq NaN (Fl 0)
   \<and> filter_candidates nearest_square [line_polygon] tiny_calibration default_config
       = Inr \<lparr>polygons = [line_polygon],
              metrics = [\<lparr>contour_index = 0, area_sqft = NaN, perimeter_lf = PosInf,
                          vertex_count = 4, sanity_score_of = PosInf, flagged = True\<rparr>]\<rparr>"
proof -
  have a: "py_gt (pixel_distance tiny_calibration) (Fl 0)
      \<and> py_gt (real_distance_feet tiny_calibration) (Fl 0)"
    by (simp add: tiny_calibration_def py_gt_def py_lt_def)
  have z: "area line_polygon = Fl 0" and l: "length_of line_polygon = Fl 20"
    by (simp_all add: line_polygon_def)
  have g: "compute_geometry nearest_square line_polygon tiny_calibration = Inr (NaN, PosInf)"
    by (rule infinite_scale_geometry[OF tiny_feet_per_pixel z l]) simp
  have n: "\<not> py_eq NaN (Fl 0)" by (simp add: py_eq_def)
  have e: "\<not> is_empty line_polygon" by (simp add: line_polygon_def)
  have s: "sanity_score line_polygon = Inr PosInf"
    by (simp add: sanity_score_def z py_eq_def)
  have v: "int (length (exterior_coords line_polygon)) = 4" by code_simp
  have m: "\<not> py_lt NaN (min_area_sqft default_config)" by (simp add: py_lt_def)
  have c: "\<not> max_vertex_count default_config < 4" by (simp add: default_config_def)
  have f: "py_gt PosInf (sanity_ratio_threshold default_config)" by code_simp
  have r: "filter_candidates nearest_square [line_polygon] tiny_calibration default_config
       = Inr \<lparr>polygons = [line_polygon],
              metrics = [\<lparr>contour_index = 0, area_sqft = NaN, perimeter_lf = PosInf,
                          vertex_count = 4, sanity_score_of = PosInf, flagged = True\<rparr>]\<rparr>"
    by (simp add: filter_candidates_def e g s v m c f Let_def)
  from a tiny_feet_per_pixel z g n r show ?thesis by blast
qed

subsection \<open>Configuration\<close>

text \<open>
  C9, as the code has it. For every even block size \<^verbatim>\<open>adaptive_binarize\<close> raises
  \<^verbatim>\<open>ValueError\<close> (the design's InvalidConfig) whatever the image library would do, that
  is, before the threshold is computed; for an odd one it returns what the library
  returns. The pipeline raises that error for an even block size once the page has been
  rendered, and raises the renderer's error otherwise. The source checks no kernel size.
  \<^verbatim>\<open>thickness_gate\<close> hands the line weight to the library as it is, after the
  binarization, so that an error for it is the library's own. A closing kernel of 0 is
  treated as no closing kernel; every other closing kernel, below 1 or not, is handed to
  the library as it is once the image has been opened, and the gate returns what the
  library returns for it. Every error the gate raises is one that a call of the library
  returned. In the library in which every call succeeds, the pipeline returns for every
  configuration with an odd block size, whatever its kernel sizes are.
\<close>

theorem even_block_size_rejected:
  "(block_size mod 2 = 0 \<longrightarrow>
      adaptive_binarize lib gray block_size c = Inl (ValueError ''adaptive_block_size must be odd''))
   \<and> (block_size mod 2 \<noteq> 0 \<longrightarrow>
      adaptive_binarize lib gray block_size c = adaptiveThreshold lib gray block_size c)
   \<and> (adaptive_block_size config mod 2 = 0
        \<and> render_page lib pdf_path page_number (dpi config) = Inr gray \<longrightarrow>
      run_pipeline lib pow2 pdf_path page_number calibration config
        = Inl (ValueError ''adaptive_block_size must be odd''))
   \<and> (\<forall>e. render_page lib pdf_path page_number (dpi config) = Inl e \<longrightarrow>
      run_pipeline lib pow2 pdf_path page_number calibration config = Inl e)
   \<and> thickness_gate lib binary lw (Some 0) = thickness_gate lib binary lw None
   \<and> (\<forall>e. getStructuringElement lib (lw, lw) = Inl e \<longrightarrow>
        thickness_gate lib binary lw ck = Inl e)
   \<and> (\<forall>ker opened. getStructuringElement lib (lw, lw) = Inr ker
        \<and> morphologyEx lib binary MORPH_OPEN ker = Inr opened \<longrightarrow>
        thickness_gate lib binary lw None = Inr opened)
   \<and> (\<forall>k ker opened. k \<noteq> 0 \<and> getStructuringElement lib (lw, lw) = Inr ker
        \<and> morphologyEx lib binary MORPH_OPEN ker = Inr opened \<longrightarrow>
        thickness_gate lib binary lw (Some k) =
          (case getStructuringElement lib (k, k) of
             Inl e \<Rightarrow> Inl e
           | Inr close_kernel \<Rightarrow> morphologyEx lib opened MORPH_CLOSE close_kernel))
   \<and> (\<forall>e. thickness_gate lib binary lw ck = Inl e \<longrightarrow>
        (\<exists>size. getStructuringElement lib size = Inl e)
        \<or> (\<exists>img op ker. morphologyEx lib img op ker = Inl e))
   \<and> (adaptive_block_size config mod 2 \<noteq> 0 \<longrightarrow>
        run_pipeline recording_library pow2 pdf_path page_number calibration config
          = Inr \<lparr>polygons = [], metrics = []\<rparr>)"
proof (intro conjI)
  show "\<forall>e. thickness_gate lib binary lw ck = Inl e \<longrightarrow>
        (\<exists>size. getStructuringElement lib size = Inl e)
        \<or> (\<exists>img op ker. morphologyEx lib img op ker = Inl e)"
    unfolding thickness_gate_def
    by (auto split: sum.splits option.splits if_splits)
  show "adaptive_block_size config mod 2 \<noteq> 0 \<longrightarrow>
        run_pipeline recording_library pow2 pdf_path page_number calibration config
          = Inr \<lparr>polygons = [], metrics = []\<rparr>"
    by (simp add: recording_library_runs)
qed (auto simp: adaptive_binarize_def run_pipeline_def render_pdf_to_grayscale_def
        thickness_gate_def split: sum.splits)

text \<open>
  The theorem in the library that records its calls: at a block size of 34, and at a line
  weight of -2 with a closing kernel of -1, which the gate hands to the library.
\<close>

theorem even_block_size_rejected_witness:
  "(34::int) mod 2 = 0
   \<and> adaptive_binarize recording_library (Page ''plan.pdf'' 0 600) 34 10
       = Inl (ValueError ''adaptive_block_size must be odd'')
   \<and> run_pipeline recording_library nearest_square ''plan.pdf'' 0 scenario_calibration
        (default_config\<lparr>adaptive_block_size := 34\<rparr>)
       = Inl (ValueError ''adaptive_block_size must be odd'')
   \<and> thickness_gate recording_library (Page ''plan.pdf'' 0 600) (- 2) (Some (- 1))
       = Inr (Morphed (Morphed (Page ''plan.pdf'' 0 600) MORPH_OPEN (MORPH_RECT (- 2) (- 2)))
                MORPH_CLOSE (MORPH_RECT (- 1) (- 1)))
   \<and> adaptive_block_size
        (default_config\<lparr>line_weight_threshold_px := - 2, close_kernel_px := Some (- 1)\<rparr>) mod 2 \<noteq> 0
   \<and> run_pipeline recording_library nearest_square ''plan.pdf'' 0 scenario_calibration
        (default_config\<lparr>line_weight_threshold_px := - 2, close_kernel_px := Some (- 1)\<rparr>)
       = Inr \<lparr>polygons = [], metrics = []\<rparr>"
proof -
  let ?img = "Page ''plan.pdf'' 0 600"
  have e: "(34::int) mod 2 = 0" by simp
  from even_block_size_rejected[where block_size = 34 and lib = recording_library
      and gray = ?img and c = 10, THEN conjunct1] e
  have a: "adaptive_binarize recording_library ?img 34 10
       = Inl (ValueError ''adaptive_block_size must be odd'')" by blast
  let ?cfg = "default_config\<lparr>adaptive_block_size := 34\<rparr>"
  have h: "adaptive_block_size ?cfg mod 2 = 0
      \<and> render_page recording_library ''plan.pdf'' 0 (dpi ?cfg) = Inr ?img"
    by (simp add: recording_library_def default_config_def)
  from even_block_size_rejected[where config = ?cfg and lib = recording_library
      and pdf_path = "''plan.pdf''" and page_number = 0 and gray = ?img
      and calibration = scenario_calibration and ?pow2.0 = nearest_square,
      THEN conjunct2, THEN conjunct2, THEN conjunct1] h
  have b: "run_pipeline recording_library nearest_square ''plan.pdf'' 0 scenario_calibration ?cfg
       = Inl (ValueError ''adaptive_block_size must be odd'')" by blast
  have k: "(- 1::int) \<noteq> 0
      \<and> getStructuringElement recording_library (- 2, - 2) = Inr (MORPH_RECT (- 2) (- 2))
      \<and> morphologyEx recording_library ?img MORPH_OPEN (MORPH_RECT (- 2) (- 2))
          = Inr (Morphed ?img MORPH_OPEN (MORPH_RECT (- 2) (- 2)))"
    by (simp add: recording_library_def)
  from even_block_size_rejected[where lib = recording_library and binary = ?img and lw = "- 2",
      THEN conjunct2, THEN conjunct2, THEN conjunct2, THEN conjunct2, THEN conjunct2,
      THEN conjunct2, THEN conjunct2, THEN conjunct1, rule_format, OF k]
  have g: "thickness_gate recording_library ?img (- 2) (Some (- 1))
       = Inr (Morphed (Morphed ?img MORPH_OPEN (MORPH_RECT (- 2) (- 2)))
                MORPH_CLOSE (MORPH_RECT (- 1) (- 1)))"
    by (simp add: recording_library_def)
  let ?neg = "default_config\<lparr>line_weight_threshold_px := - 2, close_kernel_px := Some (- 1)\<rparr>"
  have odd: "adaptive_block_size ?neg mod 2 \<noteq> 0" by (simp add: default_config_def)
  from even_block_size_rejected[where config = ?neg and pdf_path = "''plan.pdf''"
      and page_number = 0 and calibration = scenario_calibration
      and ?pow2.0 = nearest_square,
      THEN conjunct2, THEN conjunct2, THEN conjunct2, THEN conjunct2, THEN conjunct2,
      THEN conjunct2, THEN conjunct2, THEN conjunct2, THEN conjunct2] odd
  have r: "run_pipeline recording_library nearest_square ''plan.pdf'' 0 scenario_calibration ?neg
       = Inr \<lparr>polygons = [], metrics = []\<rparr>" by blast
  from e a b g odd r show ?thesis by blast
qed

text \<open>
  With a closing kernel of 0, which is set and below 1, the pipeline runs to its end in
  the library that records its calls; the gate returns the opened image. It runs to its
  end as well with a line weight of -2 and a closing kernel of -1.
\<close>

theorem kernel_size_counterexample:
  "run_pipeline recording_library nearest_square ''plan.pdf'' 0 scenario_calibration
       (default_config\<lparr>close_kernel_px := Some 0\<rparr>)
     = Inr \<lparr>polygons = [], metrics = []\<rparr>
   \<and> thickness_gate recording_library (Thresholded (Page ''plan.pdf'' 0 600) 35 10) 5 (Some 0)
       = Inr (Morphed (Thresholded (Page ''plan.pdf'' 0 600) 35 10) MORPH_OPEN (MORPH_RECT 5 5))
   \<and> run_pipeline recording_library nearest_square ''plan.pdf'' 0 scenario_calibration
       (default_config\<lparr>line_weight_threshold_px := - 2, close_kernel_px := Some (- 1)\<rparr>)
     = Inr \<lparr>polygons = [], metrics = []\<rparr>"
  by code_simp

subsection \<open>Accepted regions\<close>

text \<open>
  C10. After any sequence of calls of \<^verbatim>\<open>add_region\<close> and \<^verbatim>\<open>remove_region\<close> on a new
  model, the identifiers handed out are 1, 2, 3 and so on in the order of the calls, hence
  strictly increasing and distinct; the stored regions have distinct identifiers, all of
  them handed out before; the next call of \<^verbatim>\<open>add_region\<close> hands out an identifier that
  is greater than every one handed out so far, removed or not. \<^verbatim>\<open>remove_region\<close> keeps
  exactly the regions with another identifier, each as it was and in the same order,
  removes at most one region, and leaves the next identifier as it was.
\<close>

theorem region_ids_never_reused:
  assumes run: "run_calls model_init cs = (final, ids)"
  shows "ids = [1 .. int (length ids)]
     \<and> sorted_wrt (<) ids \<and> distinct ids
     \<and> next_id final = 1 + int (length ids)
     \<and> sorted_wrt (<) (map region_id (regions final))
     \<and> distinct (map region_id (regions final))
     \<and> set (map region_id (regions final)) \<subseteq> set ids
     \<and> (\<forall>pg a p pts. region_id (fst (add_region final pg a p pts)) \<notin> set ids
           \<and> (\<forall>i\<in>set ids. i < region_id (fst (add_region final pg a p pts))))
     \<and> (\<forall>rid. regions (remove_region final rid)
                 = filter (\<lambda>r. region_id r \<noteq> rid) (regions final)
           \<and> (\<forall>r\<in>set (regions final). region_id r \<noteq> rid \<longrightarrow>
                 r \<in> set (regions (remove_region final rid)))
           \<and> (\<forall>r\<in>set (regions (remove_region final rid)).
                 r \<in> set (regions final) \<and> region_id r \<noteq> rid)
           \<and> length (regions final) \<le> Suc (length (regions (remove_region final rid)))
           \<and> next_id (remove_region final rid) = next_id final)"
proof -
  note inv = run_calls_ids[OF run stored_below_init]
  have sb: "stored_below final" by (rule inv[THEN conjunct1])
  have ids: "ids = [1 .. next_id final - 1]"
    using inv[THEN conjunct2, THEN conjunct1] by (simp add: model_init_def)
  have le: "1 \<le> next_id final"
    using inv[THEN conjunct2, THEN conjunct2, THEN conjunct1] by (simp add: model_init_def)
  have sub: "set (map region_id (regions_attr final)) \<subseteq> set ids"
    using inv[THEN conjunct2, THEN conjunct2, THEN conjunct2] by (simp add: model_init_def)
  from ids have len: "int (length ids) = next_id final - 1"
    using le by simp
  have a: "ids = [1 .. int (length ids)]" using ids len by simp
  have b: "sorted_wrt (<) ids" by (subst ids) (rule sorted_wrt_upto)
  then have c: "distinct ids" by (subst ids) simp
  have d: "next_id final = 1 + int (length ids)" using len by simp
  from sb have e: "sorted_wrt (<) (map region_id (regions final))"
    by (simp add: stored_below_def regions_def)
  then have f: "distinct (map region_id (regions final))"
    by (simp add: strict_sorted_iff)
  have g: "set (map region_id (regions final)) \<subseteq> set ids"
    using sub by (simp add: regions_def)
  have h: "region_id (fst (add_region final pg a p pts)) \<notin> set ids
           \<and> (\<forall>i\<in>set ids. i < region_id (fst (add_region final pg a p pts)))" for pg a p pts
    by (subst ids, subst ids) (auto simp: add_region_id)
  have uniq: "length (filter (\<lambda>r. region_id r = rid) (regions final)) \<le> 1" for rid
  proof -
    have "length (filter (\<lambda>r. region_id r = rid) (regions final))
        = length (filter (\<lambda>i. i = rid) (map region_id (regions final)))"
      by (simp add: filter_map comp_def)
    also have "\<dots> \<le> 1"
      using f by (rule distinct_filter_eq_le)
    finally show ?thesis .
  qed
  have i: "regions (remove_region final rid) = filter (\<lambda>r. region_id r \<noteq> rid) (regions final)
           \<and> (\<forall>r\<in>set (regions final). region_id r \<noteq> rid \<longrightarrow>
                 r \<in> set (regions (remove_region final rid)))
           \<and> (\<forall>r\<in>set (regions (remove_region final rid)).
                 r \<in> set (regions final) \<and> region_id r \<noteq> rid)
           \<and> length (regions final) \<le> Suc (length (regions (remove_region final rid)))
           \<and> next_id (remove_region final rid) = next_id final" for rid
  proof -
    have "length (regions final)
        = length (filter (\<lambda>r. region_id r = rid) (regions final))
          + length (filter (\<lambda>r. region_id r \<noteq> rid) (regions final))"
      using sum_length_filter_compl[of "\<lambda>r. region_id r = rid" "regions final"] by simp
    with uniq[of rid] show ?thesis
      by (auto simp: remove_region_def regions_def)
  qed
  from a b c d e f g h i show ?thesis by blast
qed

text \<open>
  The theorem at the example: four regions accepted and the second removed before the
  fourth is added, which gets the identifier 4 and not 2.
\<close>

theorem region_ids_never_reused_witness:
  "snd (run_calls model_init example_calls) = [1, 2, 3, 4]
   \<and> map region_id (regions (fst (run_calls model_init example_calls))) = [1, 3, 4]
   \<and> sorted_wrt (<) (snd (run_calls model_init example_calls))
   \<and> distinct (map region_id (regions (fst (run_calls model_init example_calls))))
   \<and> region_id (fst (add_region (fst (run_calls model_init example_calls)) 1 (Fl 1) (Fl 4) []))
        \<notin> set (snd (run_calls model_init example_calls))"
proof -
  have run: "run_calls model_init example_calls
      = (fst (run_calls model_init example_calls), snd (run_calls model_init example_calls))"
    by simp
  note t = region_ids_never_reused[OF run]
  from t have a: "sorted_wrt (<) (snd (run_calls model_init example_calls))" by blast
  from t have b: "distinct (map region_id (regions (fst (run_calls model_init example_calls))))"
    by blast
  from t have c: "region_id (fst (add_region (fst (run_calls model_init example_calls)) 1 (Fl 1) (Fl 4) []))
        \<notin> set (snd (run_calls model_init example_calls))" by blast
  from example_run a b c show ?thesis by blast
qed

end
